theory Spec2Isabelle
  imports
    Complex_Main
    "HOL-Library.Multiset"
    "HOL-Library.Product_Lexorder"
    "HOL-Library.List_Lexorder"
    "HOL-Library.Char_ord"
begin

section \<open>The Enginality runtime loop (runtime\_loop.py)\<close>

text \<open>
  A shallow embedding of \<^verbatim>\<open>zon4d/ENGINALITY/runtime_loop.py\<close>: the data classes
  \<^verbatim>\<open>Delta\<close>, \<^verbatim>\<open>Snapshot\<close> and \<^verbatim>\<open>TickContext\<close>, the collaborator protocols and
  \<^verbatim>\<open>EnginalityRuntime.run_tick\<close> with its steps 1, 2, 3, 6, 10, 11 and the
  breach and rollback helpers.

  Conventions of the embedding.
  \<^item> Python floats (\<^verbatim>\<open>temporal_index\<close>, \<^verbatim>\<open>temporal_scope\<close>, \<^verbatim>\<open>delta_time\<close>, the wall
    clock) are the real numbers they denote; NaN and the infinities are outside the model.
  \<^item> Values typed \<^verbatim>\<open>Any\<close> are type variables: \<open>'p\<close> a payload, \<open>'m\<close> a metadata
    dictionary, \<open>'st\<close> the \<^verbatim>\<open>zon4d_state\<close> dictionary (only the kernel and the domain
    view generator look inside it), \<open>'v\<close> a domain view, \<open>'t\<close> a performance task.
  \<^item> The collaborators are Python objects with hidden state. Every call of a collaborator
    takes the state \<open>'w\<close> of the world outside the runtime and returns the new one together
    with either the exception it raised (\<open>Inl\<close>) or its result (\<open>Inr\<close>).
  \<^item> Snapshots and state dictionaries are values: the kernel's in-place mutation returns
    the mutated dictionary, and a collaborator cannot reach into a dictionary the runtime
    holds.
  \<^item> The AP engine and its two time budgets are stored by the constructor and never used
    by the pipeline; they are left out.
\<close>

subsection \<open>Exceptions\<close>

text \<open>
  Exceptions are classified by the handlers of the module: \<^verbatim>\<open>except RuntimeError\<close> in
  \<^verbatim>\<open>run_tick\<close>, \<^verbatim>\<open>except ImportError\<close> and \<^verbatim>\<open>except Exception\<close> in step 10. Each
  carries its message, the value of \<^verbatim>\<open>str(exc)\<close>.
\<close>

datatype exc = RuntimeError string | ImportError string | OtherException string

fun str_exc :: "exc \<Rightarrow> string" where
  "str_exc (RuntimeError m) = m"
| "str_exc (ImportError m) = m"
| "str_exc (OtherException m) = m"

subsection \<open>Formatting integers in f-strings\<close>

fun str_nat :: "nat \<Rightarrow> string" where
  "str_nat n =
     (if n < 10 then [''0123456789'' ! n]
      else str_nat (n div 10) @ [''0123456789'' ! (n mod 10)])"

declare str_nat.simps [simp del]

definition str_int :: "int \<Rightarrow> string" where
  "str_int i = (if i < 0 then CHR ''-'' # str_nat (nat (- i)) else str_nat (nat i))"

subsection \<open>Data classes\<close>

record ('p, 'm) Delta =
  delta_id :: string
  source_id :: string
  entity_ref :: string
  temporal_index :: real
  temporal_scope :: "real \<times> real"
  parent_ids :: "string list"
  payload :: 'p
  metadata :: 'm

record 'st Snapshot =
  snap_id :: string
  tick :: int
  zon4d_state :: 'st
  hash32 :: "string option"
  anchor_type :: string

text \<open>An alert is the dictionary that \<^verbatim>\<open>_alert\<close> appends, with its five keys.\<close>

record Alert =
  level :: string
  step :: int
  message :: string
  alert_tick :: int
  ts :: real

record ('p, 'm, 'st, 'v, 't) TickContext =
  tick_id :: int
  wall_clock_ts :: real
  snapshot_in :: "'st Snapshot option"
  snapshot_out :: "'st Snapshot option"
  deltas_in :: "('p, 'm) Delta list"
  deltas_ordered :: "('p, 'm) Delta list"
  deltas_accepted :: "('p, 'm) Delta list"
  deltas_rejected :: "('p, 'm) Delta list"
  inverse_deltas :: "('p, 'm) Delta list"
  alerts :: "Alert list"
  fenced :: bool
  breached :: bool
  breach_step :: "int option"
  timeline_hash_ok :: bool
  delta_time :: real
  domain_views :: "string \<rightharpoonup> 'v"
  performance_tasks :: "'t list"

subsection \<open>Collaborator protocols\<close>

type_synonym ('w, 'a) call = "'w \<Rightarrow> (exc + 'a) \<times> 'w"

record ('st, 'w) AnchorStore =
  load_initial_snapshot :: "('w, 'st Snapshot option) call"
  load_last_immutable_anchor :: "('w, 'st Snapshot option) call"
  store_timeline_hash_ok :: "('w, bool) call"

record ('p, 'm, 'st, 'w) ZON4DKernel =
  compute_inverse_delta :: "'st \<Rightarrow> ('p, 'm) Delta \<Rightarrow> ('w, ('p, 'm) Delta option) call"
  apply_delta_in_place :: "'st \<Rightarrow> ('p, 'm) Delta \<Rightarrow> ('w, 'st) call"
  validate_state :: "'st \<Rightarrow> ('w, bool) call"

definition NoopPerformanceABI :: "int \<Rightarrow> 't list \<Rightarrow> ('w, unit) call" where
  "NoopPerformanceABI tid tasks w = (Inr (), w)"

subsection \<open>The runtime object\<close>

text \<open>
  \<open>performer\<close> is the \<^verbatim>\<open>step\<close> method of the attached \<^verbatim>\<open>PerformerEngine\<close>, if any;
  \<open>generate_domain_views\<close> stands for importing and calling
  \<^verbatim>\<open>generate_domain_views_from_state\<close>, whose result depends on values typed \<^verbatim>\<open>Any\<close>.
\<close>

record ('p, 'm, 'st, 'v, 't, 'w) EnginalityRuntime =
  anchor_store :: "('st, 'w) AnchorStore"
  zon4d :: "('p, 'm, 'st, 'w) ZON4DKernel"
  performer :: "(int \<Rightarrow> real \<Rightarrow> (string \<rightharpoonup> 'v) \<Rightarrow> ('w, 't list) call) option"
  performance_abi :: "int \<Rightarrow> 't list \<Rightarrow> ('w, unit) call"
  generate_domain_views :: "'st \<Rightarrow> int \<Rightarrow> ('w, string \<rightharpoonup> 'v) call"
  tick_counter :: int
  current_snapshot :: "'st Snapshot option"
  max_deltas_per_tick :: int
  last_wall_clock_ts :: "real option"

subsection \<open>Alert and breach helpers\<close>

definition alert ::
  "('p, 'm, 'st, 'v, 't) TickContext \<Rightarrow> string \<Rightarrow> int \<Rightarrow> string
     \<Rightarrow> ('p, 'm, 'st, 'v, 't) TickContext" where
  "alert ctx lvl stp msg =
     ctx\<lparr>alerts := alerts ctx @
       [\<lparr>level = lvl, step = stp, message = msg,
         alert_tick = tick_id ctx, ts = wall_clock_ts ctx\<rparr>]\<rparr>"

definition breach ::
  "('p, 'm, 'st, 'v, 't) TickContext \<Rightarrow> int \<Rightarrow> string
     \<Rightarrow> ('p, 'm, 'st, 'v, 't) TickContext" where
  "breach ctx stp msg =
     alert (ctx\<lparr>breached := True, breach_step := Some stp\<rparr>) ''CRITICAL'' stp msg"

text \<open>\<^verbatim>\<open>ctx.breach_step or -1\<close>: \<^verbatim>\<open>None\<close> and \<^verbatim>\<open>0\<close> are both falsy.\<close>

definition breach_step_or :: "('p, 'm, 'st, 'v, 't) TickContext \<Rightarrow> int" where
  "breach_step_or ctx =
     (case breach_step ctx of None \<Rightarrow> - 1 | Some s \<Rightarrow> if s = 0 then - 1 else s)"

definition mark_breach ::
  "('p, 'm, 'st, 'v, 't) TickContext \<Rightarrow> string \<Rightarrow> ('p, 'm, 'st, 'v, 't) TickContext" where
  "mark_breach ctx reason =
     alert (ctx\<lparr>breached := True\<rparr>) ''CRITICAL'' (breach_step_or ctx)
       (''Runtime breach: '' @ reason)"

definition alloc_snapshot_id :: "int \<Rightarrow> string" where
  "alloc_snapshot_id tid = ''snap_'' @ str_int tid"

subsection \<open>Step 1: tick initialization\<close>

text \<open>
  \<open>now\<close> is the reading of \<^verbatim>\<open>time.time()\<close>. The counter and the stored wall clock are
  updated before the Anchor Store is asked, so they are updated also when it raises.
\<close>

definition step1_init ::
  "('p, 'm, 'st, 'v, 't, 'w) EnginalityRuntime \<Rightarrow> ('p, 'm) Delta list
     \<Rightarrow> (string \<rightharpoonup> 'v) option \<Rightarrow> real option \<Rightarrow> real \<Rightarrow> 'w
     \<Rightarrow> (exc + ('p, 'm, 'st, 'v, 't) TickContext)
         \<times> ('p, 'm, 'st, 'v, 't, 'w) EnginalityRuntime \<times> 'w" where
  "step1_init self pending_deltas dviews explicit_delta_time now w =
     (let self1 = self\<lparr>tick_counter := tick_counter self + 1\<rparr>;
          snap_in = current_snapshot self1;
          dt = (case explicit_delta_time of
                  Some d \<Rightarrow> max d 0
                | None \<Rightarrow>
                    (case last_wall_clock_ts self1 of
                       None \<Rightarrow> 0
                     | Some l \<Rightarrow> max (now - l) 0));
          self2 = self1\<lparr>last_wall_clock_ts := Some now\<rparr>;
          ctx = \<lparr>tick_id = tick_counter self2, wall_clock_ts = now,
                 snapshot_in = snap_in, snapshot_out = None,
                 deltas_in = pending_deltas, deltas_ordered = [], deltas_accepted = [],
                 deltas_rejected = [], inverse_deltas = [], alerts = [],
                 fenced = False, breached = False, breach_step = None,
                 timeline_hash_ok = True, delta_time = dt,
                 domain_views = (case dviews of None \<Rightarrow> Map.empty | Some m \<Rightarrow> m),
                 performance_tasks = []\<rparr>
      in case store_timeline_hash_ok (anchor_store self2) w of
           (Inl e, w1) \<Rightarrow> (Inl e, self2, w1)
         | (Inr ok, w1) \<Rightarrow>
             (let ctx1 = ctx\<lparr>timeline_hash_ok := ok\<rparr>
              in if \<not> ok
                 then (Inr (breach ctx1 1 ''Timeline hash mismatch at Tick init''), self2, w1)
                 else (Inr ctx1, self2, w1)))"

subsection \<open>Step 2: delta queue ingestion\<close>

definition validate_delta_structure :: "('p, 'm) Delta \<Rightarrow> bool" where
  "validate_delta_structure d =
     (if delta_id d = [] \<or> source_id d = [] \<or> entity_ref d = [] then False
      else if fst (temporal_scope d) > snd (temporal_scope d) then False
      else if length (parent_ids d) > 64 then False
      else True)"

text \<open>
  \<^verbatim>\<open>round(x, 6)\<close>: the nearest multiple of \<open>10\<^sup>-\<^sup>6\<close>, a tie going to the even
  multiple.
\<close>

definition round_half_even :: "real \<Rightarrow> int" where
  "round_half_even y =
     (let f = \<lfloor>y\<rfloor>; r = y - of_int f
      in if r < 1 / 2 then f
         else if 1 / 2 < r then f + 1
         else if even f then f else f + 1)"

definition round6 :: "real \<Rightarrow> real" where
  "round6 x = of_int (round_half_even (x * 1000000)) / 1000000"

definition normalized_delta :: "('p, 'm) Delta \<Rightarrow> ('p, 'm) Delta" where
  "normalized_delta d =
     \<lparr>delta_id = delta_id d, source_id = source_id d, entity_ref = entity_ref d,
      temporal_index = round6 (temporal_index d), temporal_scope = temporal_scope d,
      parent_ids = parent_ids d, payload = payload d, metadata = metadata d\<rparr>"

text \<open>
  \<^verbatim>\<open>xs[:m]\<close> for a Python int \<open>m\<close>: a negative bound counts from the end of the list.
\<close>

definition slice_to :: "'a list \<Rightarrow> int \<Rightarrow> 'a list" where
  "slice_to xs m =
     (if 0 \<le> m then take (nat m) xs else take (nat (int (length xs) + m)) xs)"

text \<open>The loop of step 2, with the local list \<^verbatim>\<open>valid\<close> and the context it updates.\<close>

fun ingest_loop ::
  "('p, 'm) Delta list \<Rightarrow> ('p, 'm) Delta list \<Rightarrow> ('p, 'm, 'st, 'v, 't) TickContext
     \<Rightarrow> ('p, 'm) Delta list \<times> ('p, 'm, 'st, 'v, 't) TickContext" where
  "ingest_loop [] valid ctx = (valid, ctx)"
| "ingest_loop (d # ds) valid ctx =
     (if validate_delta_structure d
      then ingest_loop ds (valid @ [normalized_delta d]) ctx
      else ingest_loop ds valid
             (alert (ctx\<lparr>deltas_rejected := deltas_rejected ctx @ [d]\<rparr>)
                ''WARNING'' 2 (''Rejected malformed Delta '' @ delta_id d)))"

definition step2_ingest ::
  "('p, 'm, 'st, 'v, 't, 'w) EnginalityRuntime \<Rightarrow> ('p, 'm, 'st, 'v, 't) TickContext
     \<Rightarrow> ('p, 'm, 'st, 'v, 't) TickContext" where
  "step2_ingest self ctx =
     (if breached ctx then ctx
      else
        (let ctx1 =
               (if int (length (deltas_in ctx)) > max_deltas_per_tick self
                then
                  (let overflow = int (length (deltas_in ctx)) - max_deltas_per_tick self;
                       c = ctx\<lparr>deltas_in := slice_to (deltas_in ctx) (max_deltas_per_tick self)\<rparr>;
                       c = alert c ''WARNING'' 2
                             (''Temporal fence: '' @ str_int overflow
                                @ '' Deltas pushed to next Tick'')
                   in c\<lparr>fenced := True\<rparr>)
                else ctx)
         in case ingest_loop (deltas_in ctx1) [] ctx1 of
              (valid, ctx2) \<Rightarrow> ctx2\<lparr>deltas_in := valid\<rparr>))"

subsection \<open>Step 3: temporal ordering\<close>

text \<open>
  \<^verbatim>\<open>sorted\<close> is stable and compares the key tuples lexicographically, strings by code
  point; so does \<^const>\<open>sort_key\<close> on the lexicographic product order.
\<close>

definition sort_key_delta :: "('p, 'm) Delta \<Rightarrow> real \<times> nat \<times> string \<times> string" where
  "sort_key_delta d = (temporal_index d, length (parent_ids d), source_id d, delta_id d)"

definition step3_temporal_order ::
  "('p, 'm, 'st, 'v, 't) TickContext \<Rightarrow> ('p, 'm, 'st, 'v, 't) TickContext" where
  "step3_temporal_order ctx =
     (if breached ctx then ctx
      else ctx\<lparr>deltas_ordered := sort_key sort_key_delta (deltas_in ctx)\<rparr>)"

subsection \<open>Step 6: delta application\<close>

text \<open>
  The loop over \<^verbatim>\<open>ctx.deltas_accepted\<close>. It carries the working copy \<^verbatim>\<open>new_state\<close>,
  the local list \<^verbatim>\<open>inverse_deltas\<close> and the context; the first component of the result
  is the exception that left the loop, if any.
\<close>

fun apply_loop ::
  "('p, 'm, 'st, 'w) ZON4DKernel \<Rightarrow> ('p, 'm) Delta list
     \<Rightarrow> ('p, 'm, 'st, 'v, 't) TickContext \<Rightarrow> 'st \<Rightarrow> ('p, 'm) Delta list \<Rightarrow> 'w
     \<Rightarrow> exc option \<times> ('p, 'm, 'st, 'v, 't) TickContext \<times> 'st \<times> ('p, 'm) Delta list \<times> 'w"
  where
  "apply_loop k [] ctx new_state invs w = (None, ctx, new_state, invs, w)"
| "apply_loop k (d # ds) ctx new_state invs w =
     (case compute_inverse_delta k new_state d w of
        (Inl e, w1) \<Rightarrow> (Some e, ctx, new_state, invs, w1)
      | (Inr None, w1) \<Rightarrow>
          (Some (RuntimeError ''Inverse Delta computation failed''),
           breach ctx 6 (''Cannot compute inverse for Delta '' @ delta_id d),
           new_state, invs, w1)
      | (Inr (Some inv_d), w1) \<Rightarrow>
          (case apply_delta_in_place k new_state d w1 of
             (Inl e, w2) \<Rightarrow> (Some e, ctx, new_state, invs, w2)
           | (Inr st, w2) \<Rightarrow> apply_loop k ds ctx st (invs @ [inv_d]) w2))"

definition step6_apply_deltas ::
  "('p, 'm, 'st, 'v, 't, 'w) EnginalityRuntime \<Rightarrow> ('p, 'm, 'st, 'v, 't) TickContext \<Rightarrow> 'w
     \<Rightarrow> exc option \<times> ('p, 'm, 'st, 'v, 't) TickContext \<times> 'w" where
  "step6_apply_deltas self ctx w =
     (if breached ctx then (None, ctx, w)
      else case snapshot_in ctx of
        None \<Rightarrow>
          (Some (RuntimeError ''Missing snapshot_in''),
           breach ctx 6 ''No input Snapshot to mutate'', w)
      | Some snap \<Rightarrow>
          (case apply_loop (zon4d self) (deltas_accepted ctx) ctx (zon4d_state snap) [] w of
             (Some e, ctx1, new_state, invs, w1) \<Rightarrow> (Some e, ctx1, w1)
           | (None, ctx1, new_state, invs, w1) \<Rightarrow>
               (case validate_state (zon4d self) new_state w1 of
                  (Inl e, w2) \<Rightarrow> (Some e, ctx1, w2)
                | (Inr ok, w2) \<Rightarrow>
                    if \<not> ok
                    then (Some (RuntimeError ''ZON4D validation failed after mutations''),
                          breach ctx1 6 ''ZON4D state validation failed'', w2)
                    else
                      (let sout = \<lparr>snap_id = alloc_snapshot_id (tick_id ctx1),
                                    tick = tick_id ctx1, zon4d_state = new_state,
                                    hash32 = None, anchor_type = ''soft''\<rparr>
                       in (None,
                           ctx1\<lparr>snapshot_out := Some sout, inverse_deltas := invs\<rparr>,
                           w2)))))"

subsection \<open>Step 10: domain view generation\<close>

text \<open>
  Both handlers of step 10 return normally, so the step never raises. An empty result
  (falsy in Python) leaves the views as they are.
\<close>

definition step10_generate_domain_views ::
  "('p, 'm, 'st, 'v, 't, 'w) EnginalityRuntime \<Rightarrow> ('p, 'm, 'st, 'v, 't) TickContext \<Rightarrow> 'w
     \<Rightarrow> ('p, 'm, 'st, 'v, 't) TickContext \<times> 'w" where
  "step10_generate_domain_views self ctx w =
     (if breached ctx then (ctx, w)
      else case snapshot_out ctx of
        None \<Rightarrow> (ctx, w)
      | Some sout \<Rightarrow>
          (case generate_domain_views self (zon4d_state sout) (tick_id ctx) w of
             (Inr post_delta_views, w1) \<Rightarrow>
               (if post_delta_views = Map.empty then ctx
                else ctx\<lparr>domain_views := domain_views ctx ++ post_delta_views\<rparr>, w1)
           | (Inl (ImportError m), w1) \<Rightarrow>
               (alert ctx ''WARNING'' 10
                  ''domain_views module not available; skipping view generation'', w1)
           | (Inl e, w1) \<Rightarrow>
               (alert ctx ''ERROR'' 10 (''Domain view generation failed: '' @ str_exc e), w1)))"

subsection \<open>Step 11: performance pass scheduling\<close>

definition step11_schedule_performance ::
  "('p, 'm, 'st, 'v, 't, 'w) EnginalityRuntime \<Rightarrow> ('p, 'm, 'st, 'v, 't) TickContext \<Rightarrow> 'w
     \<Rightarrow> exc option \<times> ('p, 'm, 'st, 'v, 't) TickContext \<times> 'w" where
  "step11_schedule_performance self ctx w =
     (if breached ctx then (None, ctx, w)
      else case performer self of
        None \<Rightarrow>
          (None,
           alert ctx ''INFO'' 11
             ''Tick complete (PerformerEngine not attached; performance no-op)'', w)
      | Some performer_step \<Rightarrow>
          (case performer_step (tick_id ctx) (delta_time ctx) (domain_views ctx) w of
             (Inl e, w1) \<Rightarrow> (Some e, ctx, w1)
           | (Inr tasks, w1) \<Rightarrow>
               (let ctx1 = ctx\<lparr>performance_tasks := tasks\<rparr>
                in case performance_abi self (tick_id ctx1) (performance_tasks ctx1) w1 of
                     (Inl e, w2) \<Rightarrow> (Some e, ctx1, w2)
                   | (Inr u, w2) \<Rightarrow>
                       (None,
                        alert ctx1 ''INFO'' 11
                          (''Tick complete (Performer scheduled ''
                             @ str_nat (length (performance_tasks ctx1)) @ '' tasks)''),
                        w2))))"

subsection \<open>Rollback\<close>

text \<open>The loop of the fast path: the kernel applies the given deltas one after the other.\<close>

fun apply_all ::
  "('p, 'm, 'st, 'w) ZON4DKernel \<Rightarrow> ('p, 'm) Delta list \<Rightarrow> 'st \<Rightarrow> 'w \<Rightarrow> (exc + 'st) \<times> 'w"
  where
  "apply_all k [] state w = (Inr state, w)"
| "apply_all k (d # ds) state w =
     (case apply_delta_in_place k state d w of
        (Inl e, w1) \<Rightarrow> (Inl e, w1)
      | (Inr st, w1) \<Rightarrow> apply_all k ds st w1)"

text \<open>The block under \<^verbatim>\<open>if not use_fast\<close>: the slow path.\<close>

definition restore_anchor ::
  "('p, 'm, 'st, 'v, 't, 'w) EnginalityRuntime \<Rightarrow> ('p, 'm, 'st, 'v, 't) TickContext
     \<Rightarrow> int \<Rightarrow> 'w
     \<Rightarrow> exc option \<times> ('p, 'm, 'st, 'v, 't) TickContext
         \<times> ('p, 'm, 'st, 'v, 't, 'w) EnginalityRuntime \<times> 'w" where
  "restore_anchor self ctx stp w =
     (case load_last_immutable_anchor (anchor_store self) w of
        (Inl e, w1) \<Rightarrow> (Some e, ctx, self, w1)
      | (Inr anchor, w1) \<Rightarrow>
          (None,
           alert ctx ''INFO'' stp ''Slow-path rollback: restored last immutable anchor'',
           self\<lparr>current_snapshot := anchor\<rparr>, w1))"

text \<open>
  Reading \<^verbatim>\<open>zon4d_state\<close> of a current snapshot that is \<^verbatim>\<open>None\<close> raises an
  AttributeError.
\<close>

definition rollback ::
  "('p, 'm, 'st, 'v, 't, 'w) EnginalityRuntime \<Rightarrow> ('p, 'm, 'st, 'v, 't) TickContext \<Rightarrow> 'w
     \<Rightarrow> exc option \<times> ('p, 'm, 'st, 'v, 't) TickContext
         \<times> ('p, 'm, 'st, 'v, 't, 'w) EnginalityRuntime \<times> 'w" where
  "rollback self ctx w =
     (let stp = breach_step_or ctx
      in case store_timeline_hash_ok (anchor_store self) w of
           (Inl e, w1) \<Rightarrow> (Some e, ctx, self, w1)
         | (Inr ok, w1) \<Rightarrow>
             (let ctx1 = ctx\<lparr>timeline_hash_ok := ok\<rparr>;
                  use_fast = (timeline_hash_ok ctx1 \<and> 2 \<le> stp \<and> stp \<le> 7
                              \<and> length (inverse_deltas ctx1) > 0)
              in if use_fast
                 then
                   (case current_snapshot self of
                      None \<Rightarrow>
                        (Some (OtherException ''AttributeError: zon4d_state''), ctx1, self, w1)
                    | Some cur \<Rightarrow>
                        (case apply_all (zon4d self) (rev (inverse_deltas ctx1))
                                (zon4d_state cur) w1 of
                           (Inl e, w2) \<Rightarrow> (Some e, ctx1, self, w2)
                         | (Inr state, w2) \<Rightarrow>
                             (case validate_state (zon4d self) state w2 of
                                (Inl e, w3) \<Rightarrow> (Some e, ctx1, self, w3)
                              | (Inr valid, w3) \<Rightarrow>
                                  if \<not> valid
                                  then restore_anchor self
                                         (alert ctx1 ''CRITICAL'' stp
                                            ''Fast-path rollback validation failed; falling back to anchor restore'')
                                         stp w3
                                  else
                                    (None,
                                     alert ctx1 ''INFO'' stp
                                       ''Fast-path rollback applied via inverse Deltas'',
                                     self\<lparr>current_snapshot :=
                                            Some \<lparr>snap_id = snap_id cur, tick = tick cur,
                                                  zon4d_state = state, hash32 = hash32 cur,
                                                  anchor_type = anchor_type cur\<rparr>\<rparr>,
                                     w3))))
                 else restore_anchor self ctx1 stp w1))"

subsection \<open>The public entry point\<close>

text \<open>The body of the \<^verbatim>\<open>try\<close> block of \<^verbatim>\<open>run_tick\<close>, up to the commit.\<close>

definition tick_body ::
  "('p, 'm, 'st, 'v, 't, 'w) EnginalityRuntime \<Rightarrow> ('p, 'm, 'st, 'v, 't) TickContext \<Rightarrow> 'w
     \<Rightarrow> exc option \<times> ('p, 'm, 'st, 'v, 't) TickContext
         \<times> ('p, 'm, 'st, 'v, 't, 'w) EnginalityRuntime \<times> 'w" where
  "tick_body self ctx w =
     (let ctx2 = step2_ingest self ctx;
          ctx3 = step3_temporal_order ctx2;
          ctx4 = ctx3\<lparr>deltas_accepted := deltas_ordered ctx3\<rparr>
      in case step6_apply_deltas self ctx4 w of
           (Some e, ctx6, w6) \<Rightarrow> (Some e, ctx6, self, w6)
         | (None, ctx6, w6) \<Rightarrow>
             (case step10_generate_domain_views self ctx6 w6 of
                (ctx10, w10) \<Rightarrow>
                  (case step11_schedule_performance self ctx10 w10 of
                     (Some e, ctx11, w11) \<Rightarrow> (Some e, ctx11, self, w11)
                   | (None, ctx11, w11) \<Rightarrow>
                       (None, ctx11,
                        (if \<not> breached ctx11 \<and> snapshot_out ctx11 \<noteq> None
                         then self\<lparr>current_snapshot := snapshot_out ctx11\<rparr>
                         else self),
                        w11))))"

text \<open>
  \<^verbatim>\<open>run_tick\<close>: the result is \<open>Inr\<close> of the returned context, or \<open>Inl\<close> of the
  exception that reaches the caller; with it come the runtime object and the world as the
  call leaves them.
\<close>

definition run_tick ::
  "('p, 'm, 'st, 'v, 't, 'w) EnginalityRuntime \<Rightarrow> ('p, 'm) Delta list
     \<Rightarrow> (string \<rightharpoonup> 'v) option \<Rightarrow> real option \<Rightarrow> real \<Rightarrow> 'w
     \<Rightarrow> (exc + ('p, 'm, 'st, 'v, 't) TickContext)
         \<times> ('p, 'm, 'st, 'v, 't, 'w) EnginalityRuntime \<times> 'w" where
  "run_tick self pending_deltas dviews dtime now w =
     (case step1_init self pending_deltas dviews dtime now w of
        (Inl e, self1, w1) \<Rightarrow> (Inl e, self1, w1)
      | (Inr ctx, self1, w1) \<Rightarrow>
          (case tick_body self1 ctx w1 of
             (Some (RuntimeError m), ctx', self', w') \<Rightarrow>
               (case rollback self' (mark_breach ctx' m) w' of
                  (Some e, ctx'', self'', w'') \<Rightarrow> (Inl e, self'', w'')
                | (None, ctx'', self'', w'') \<Rightarrow> (Inr ctx'', self'', w''))
           | (Some e, ctx', self', w') \<Rightarrow> (Inl e, self', w')
           | (None, ctx', self', w') \<Rightarrow>
               (if breached ctx'
                then (case rollback self' ctx' w' of
                        (Some e, ctx'', self'', w'') \<Rightarrow> (Inl e, self'', w'')
                      | (None, ctx'', self'', w'') \<Rightarrow> (Inr ctx'', self'', w''))
                else (Inr ctx', self', w'))))"

subsection \<open>The constructor\<close>

definition init_runtime ::
  "('st, 'w) AnchorStore \<Rightarrow> ('p, 'm, 'st, 'w) ZON4DKernel \<Rightarrow> (string \<rightharpoonup> int)
     \<Rightarrow> (int \<Rightarrow> real \<Rightarrow> (string \<rightharpoonup> 'v) \<Rightarrow> ('w, 't list) call) option
     \<Rightarrow> (int \<Rightarrow> 't list \<Rightarrow> ('w, unit) call) option
     \<Rightarrow> ('st \<Rightarrow> int \<Rightarrow> ('w, string \<rightharpoonup> 'v) call) \<Rightarrow> 'w
     \<Rightarrow> (exc + ('p, 'm, 'st, 'v, 't, 'w) EnginalityRuntime) \<times> 'w" where
  "init_runtime store kern config perf abi gen w =
     (case load_initial_snapshot store w of
        (Inl e, w1) \<Rightarrow> (Inl e, w1)
      | (Inr snap, w1) \<Rightarrow>
          (Inr \<lparr>anchor_store = store, zon4d = kern, performer = perf,
                performance_abi = (case abi of None \<Rightarrow> NoopPerformanceABI | Some a \<Rightarrow> a),
                generate_domain_views = gen,
                tick_counter = 0, current_snapshot = snap,
                max_deltas_per_tick =
                  (case config ''max_deltas_per_tick'' of None \<Rightarrow> 1024 | Some n \<Rightarrow> n),
                last_wall_clock_ts = None\<rparr>, w1))"

section \<open>Notions used to state the properties\<close>

text \<open>
  The two alerts of step 2, the deltas that survive the temporal fence, the context as it
  stands after the ordered deltas are accepted, the runtime and the context as step 1
  leaves them, and the arguments with which \<^verbatim>\<open>run_tick\<close> calls \<^verbatim>\<open>_rollback\<close>.
\<close>

definition reject_alert :: "int \<Rightarrow> real \<Rightarrow> ('p, 'm) Delta \<Rightarrow> Alert" where
  "reject_alert tid t d =
     \<lparr>level = ''WARNING'', step = 2, message = ''Rejected malformed Delta '' @ delta_id d,
      alert_tick = tid, ts = t\<rparr>"

definition fence_alert :: "int \<Rightarrow> real \<Rightarrow> int \<Rightarrow> Alert" where
  "fence_alert tid t overflow =
     \<lparr>level = ''WARNING'', step = 2,
      message = ''Temporal fence: '' @ str_int overflow @ '' Deltas pushed to next Tick'',
      alert_tick = tid, ts = t\<rparr>"

definition fence_survivors :: "int \<Rightarrow> 'a list \<Rightarrow> 'a list" where
  "fence_survivors m pending =
     (if int (length pending) > m then slice_to pending m else pending)"

definition same_queues ::
  "('p, 'm, 'st, 'v, 't) TickContext \<Rightarrow> ('p, 'm, 'st, 'v, 't) TickContext \<Rightarrow> bool" where
  "same_queues c c' \<longleftrightarrow>
     tick_id c' = tick_id c \<and> wall_clock_ts c' = wall_clock_ts c
     \<and> snapshot_in c' = snapshot_in c \<and> deltas_in c' = deltas_in c
     \<and> deltas_ordered c' = deltas_ordered c \<and> deltas_accepted c' = deltas_accepted c
     \<and> deltas_rejected c' = deltas_rejected c \<and> fenced c' = fenced c
     \<and> delta_time c' = delta_time c"

definition ordered_ctx ::
  "('p, 'm, 'st, 'v, 't, 'w) EnginalityRuntime \<Rightarrow> ('p, 'm, 'st, 'v, 't) TickContext
     \<Rightarrow> ('p, 'm, 'st, 'v, 't) TickContext" where
  "ordered_ctx self ctx =
     (let c = step3_temporal_order (step2_ingest self ctx)
      in c\<lparr>deltas_accepted := deltas_ordered c\<rparr>)"

definition ticked ::
  "('p, 'm, 'st, 'v, 't, 'w) EnginalityRuntime \<Rightarrow> real
     \<Rightarrow> ('p, 'm, 'st, 'v, 't, 'w) EnginalityRuntime" where
  "ticked self now = self\<lparr>tick_counter := tick_counter self + 1, last_wall_clock_ts := Some now\<rparr>"

definition init_ctx ::
  "('p, 'm, 'st, 'v, 't, 'w) EnginalityRuntime \<Rightarrow> ('p, 'm) Delta list
     \<Rightarrow> (string \<rightharpoonup> 'v) option \<Rightarrow> real option \<Rightarrow> real \<Rightarrow> bool
     \<Rightarrow> ('p, 'm, 'st, 'v, 't) TickContext" where
  "init_ctx self pending_deltas dviews dtime now ok =
     (let c = \<lparr>tick_id = tick_counter self + 1, wall_clock_ts = now,
                 snapshot_in = current_snapshot self, snapshot_out = None,
                 deltas_in = pending_deltas, deltas_ordered = [], deltas_accepted = [],
                 deltas_rejected = [], inverse_deltas = [], alerts = [],
                 fenced = False, breached = False, breach_step = None,
                 timeline_hash_ok = ok,
                 delta_time = (case dtime of
                     Some d \<Rightarrow> max d 0
                   | None \<Rightarrow> (case last_wall_clock_ts self of
                                None \<Rightarrow> 0 | Some l \<Rightarrow> max (now - l) 0)),
                 domain_views = (case dviews of None \<Rightarrow> Map.empty | Some m \<Rightarrow> m),
                 performance_tasks = []\<rparr>
      in if ok then c else breach c 1 ''Timeline hash mismatch at Tick init'')"

definition rollback_call ::
  "('p, 'm, 'st, 'v, 't, 'w) EnginalityRuntime \<Rightarrow> ('p, 'm) Delta list
     \<Rightarrow> (string \<rightharpoonup> 'v) option \<Rightarrow> real option \<Rightarrow> real \<Rightarrow> 'w
     \<Rightarrow> (('p, 'm, 'st, 'v, 't, 'w) EnginalityRuntime
          \<times> ('p, 'm, 'st, 'v, 't) TickContext \<times> 'w) option" where
  "rollback_call self pending_deltas dviews dtime now w =
     (case step1_init self pending_deltas dviews dtime now w of
        (Inl e, self1, w1) \<Rightarrow> None
      | (Inr ctx, self1, w1) \<Rightarrow>
          (case tick_body self1 ctx w1 of
             (Some (RuntimeError m), ctx', self', w') \<Rightarrow> Some (self', mark_breach ctx' m, w')
           | (Some e, ctx', self', w') \<Rightarrow> None
           | (None, ctx', self', w') \<Rightarrow>
               (if breached ctx' then Some (self', ctx', w') else None)))"

section \<open>The collaborators of test\_runtime\_loop.py\<close>

text \<open>
  The in-memory Anchor Store and the minimal kernel of the repository's own tests. The
  world state is the store's flag \<^verbatim>\<open>current_hash_ok\<close>; the zon4d state is a dictionary
  of integers, a payload is the \<^verbatim>\<open>amount\<close> of an \<^verbatim>\<open>add\<close> operation, if it has one.
\<close>

definition immutable_anchor :: "(string \<rightharpoonup> int) Snapshot" where
  "immutable_anchor =
     \<lparr>snap_id = ''snap_0'', tick = 0, zon4d_state = [''value'' \<mapsto> 0],
      hash32 = Some ''hash0'', anchor_type = ''immutable''\<rparr>"

definition TestAnchorStore :: "(string \<rightharpoonup> int, bool) AnchorStore" where
  "TestAnchorStore =
     \<lparr>load_initial_snapshot = (\<lambda>w. (Inr (Some immutable_anchor), w)),
      load_last_immutable_anchor = (\<lambda>w. (Inr (Some immutable_anchor), w)),
      store_timeline_hash_ok = (\<lambda>w. (Inr w, w))\<rparr>"

definition TestZON4DKernel :: "(int option, unit, string \<rightharpoonup> int, bool) ZON4DKernel" where
  "TestZON4DKernel =
     \<lparr>compute_inverse_delta = (\<lambda>state d w.
        (case payload d of
           None \<Rightarrow> (Inr None, w)
         | Some amt \<Rightarrow>
             (Inr (Some \<lparr>delta_id = ''inv_'' @ delta_id d, source_id = source_id d,
                         entity_ref = entity_ref d, temporal_index = temporal_index d,
                         temporal_scope = temporal_scope d, parent_ids = [],
                         payload = Some (- amt), metadata = ()\<rparr>), w))),
      apply_delta_in_place = (\<lambda>state d w.
        (Inr (state(''value'' \<mapsto>
                (case state ''value'' of None \<Rightarrow> 0 | Some v \<Rightarrow> v)
                + (case payload d of None \<Rightarrow> 0 | Some a \<Rightarrow> a))), w)),
      validate_state = (\<lambda>state w. (Inr (state ''value'' \<noteq> None), w))\<rparr>"

text \<open>\<^verbatim>\<open>BreachKernel\<close>: the test kernel with validation forced to fail.\<close>

definition BreachKernel :: "(int option, unit, string \<rightharpoonup> int, bool) ZON4DKernel" where
  "BreachKernel = TestZON4DKernel\<lparr>validate_state := (\<lambda>state w. (Inr False, w))\<rparr>"

text \<open>A delta as the tests build them: \<^verbatim>\<open>Delta(i, "user", "world/value", t, (t, t), [], {"op": "add", "amount": a})\<close>.\<close>

definition add_delta :: "string \<Rightarrow> real \<Rightarrow> int \<Rightarrow> (int option, unit) Delta" where
  "add_delta i t a =
     \<lparr>delta_id = i, source_id = ''user'', entity_ref = ''world/value'',
      temporal_index = t, temporal_scope = (t, t), parent_ids = [],
      payload = Some a, metadata = ()\<rparr>"

text \<open>
  The runtime the tests construct: no performer, the no-op scheduling sink, a domain view
  generator that finds nothing to show, and the given kernel and limit.
\<close>

definition test_runtime ::
  "(int option, unit, string \<rightharpoonup> int, bool) ZON4DKernel \<Rightarrow> int
     \<Rightarrow> (int option, unit, string \<rightharpoonup> int, unit, unit, bool) EnginalityRuntime" where
  "test_runtime kern limit =
     \<lparr>anchor_store = TestAnchorStore, zon4d = kern, performer = None,
      performance_abi = NoopPerformanceABI,
      generate_domain_views = (\<lambda>st t w. (Inr Map.empty, w)),
      tick_counter = 0, current_snapshot = Some immutable_anchor,
      max_deltas_per_tick = limit, last_wall_clock_ts = None\<rparr>"

text \<open>
  The test runtime after one successful tick that added 5: its current snapshot is the
  committed \<^verbatim>\<open>snap_1\<close>.
\<close>

definition committed_runtime ::
  "(int option, unit, string \<rightharpoonup> int, unit, unit, bool) EnginalityRuntime" where
  "committed_runtime =
     fst (snd (run_tick (test_runtime TestZON4DKernel 1024) [add_delta ''add5'' 1 5]
                 None None 100 True))"

text \<open>
  An Anchor Store that may be out of reach: the world state says whether it is online.
  Offline, \<^verbatim>\<open>load_last_immutable_anchor\<close> raises; the timeline check is kept in memory
  and still answers.
\<close>

definition OfflineAnchorStore :: "(string \<rightharpoonup> int, bool) AnchorStore" where
  "OfflineAnchorStore =
     \<lparr>load_initial_snapshot = (\<lambda>w. (Inr (Some immutable_anchor), w)),
      load_last_immutable_anchor = (\<lambda>w.
        if w then (Inr (Some immutable_anchor), w)
        else (Inl (OtherException ''anchor store offline''), w)),
      store_timeline_hash_ok = (\<lambda>w. (Inr True, w))\<rparr>"

text \<open>A delta whose payload has no \<^verbatim>\<open>amount\<close>: the test kernel computes no inverse for it.\<close>

definition no_amount_delta :: "string \<Rightarrow> real \<Rightarrow> (int option, unit) Delta" where
  "no_amount_delta i t = (add_delta i t 0)\<lparr>payload := None\<rparr>"

text \<open>
  A kernel that accepts a state only while its value is at most 10, on a runtime whose
  Anchor Store may go offline; \<open>bounded_committed\<close> is that runtime after one successful
  tick that added 5, and \<open>snap_1\<close> the snapshot that tick committed.
\<close>

definition BoundedKernel :: "(int option, unit, string \<rightharpoonup> int, bool) ZON4DKernel" where
  "BoundedKernel =
     TestZON4DKernel\<lparr>validate_state := (\<lambda>state w.
        (Inr (case state ''value'' of None \<Rightarrow> False | Some v \<Rightarrow> v \<le> 10), w))\<rparr>"

definition bounded_runtime ::
  "(int option, unit, string \<rightharpoonup> int, unit, unit, bool) EnginalityRuntime" where
  "bounded_runtime = (test_runtime BoundedKernel 1024)\<lparr>anchor_store := OfflineAnchorStore\<rparr>"

definition bounded_committed ::
  "(int option, unit, string \<rightharpoonup> int, unit, unit, bool) EnginalityRuntime" where
  "bounded_committed =
     fst (snd (run_tick bounded_runtime [add_delta ''add5'' 1 5] None None 100 True))"

definition snap_1 :: "(string \<rightharpoonup> int) Snapshot" where
  "snap_1 = \<lparr>snap_id = ''snap_1'', tick = 1, zon4d_state = [''value'' \<mapsto> 5],
            hash32 = None, anchor_type = ''soft''\<rparr>"

text \<open>
  A kernel whose deltas set the value instead of adding to it, so that the order in which
  deltas are applied shows in the result.
\<close>

definition SetKernel :: "(int option, unit, string \<rightharpoonup> int, bool) ZON4DKernel" where
  "SetKernel =
     TestZON4DKernel\<lparr>apply_delta_in_place := (\<lambda>state d w.
        (Inr (case payload d of None \<Rightarrow> state | Some a \<Rightarrow> state(''value'' \<mapsto> a)), w))\<rparr>"

text \<open>
  A context as a breach at step \<open>n\<close> leaves it, with the given inverse deltas recorded.
\<close>

definition breached_ctx ::
  "int \<Rightarrow> (int option, unit) Delta list
     \<Rightarrow> (int option, unit, string \<rightharpoonup> int, unit, unit) TickContext" where
  "breached_ctx n invs =
     (init_ctx (test_runtime TestZON4DKernel 1024) [] None None 0 True)
       \<lparr>inverse_deltas := invs, breached := True, breach_step := Some n\<rparr>"




section \<open>Evaluation\<close>

lemmas run_tick_defs =
  run_tick_def step1_init_def tick_body_def step2_ingest_def step3_temporal_order_def
  step6_apply_deltas_def step10_generate_domain_views_def step11_schedule_performance_def
  rollback_def restore_anchor_def mark_breach_def breach_step_or_def
  validate_delta_structure_def normalized_delta_def round6_def round_half_even_def
  sort_key_delta_def slice_to_def alert_def breach_def alloc_snapshot_id_def str_int_def
  str_nat.simps Let_def NoopPerformanceABI_def

lemmas test_defs =
  test_runtime_def TestAnchorStore_def TestZON4DKernel_def BreachKernel_def
  add_delta_def immutable_anchor_def OfflineAnchorStore_def no_amount_delta_def

section \<open>The steps, one by one\<close>

lemma ingest_loop_eq:
  "ingest_loop ds valid ctx =
     (valid @ map normalized_delta (filter validate_delta_structure ds),
      ctx\<lparr>deltas_rejected := deltas_rejected ctx @ filter (\<lambda>d. \<not> validate_delta_structure d) ds,
          alerts := alerts ctx @ map (reject_alert (tick_id ctx) (wall_clock_ts ctx))
                                   (filter (\<lambda>d. \<not> validate_delta_structure d) ds)\<rparr>)"
  by (induction ds arbitrary: valid ctx) (simp_all add: alert_def reject_alert_def)

lemma step2_ingest_eq:
  "\<not> breached ctx \<Longrightarrow>
   step2_ingest self ctx =
     (let m = max_deltas_per_tick self; n = int (length (deltas_in ctx));
          kept = fence_survivors m (deltas_in ctx)
      in ctx\<lparr>deltas_in := map normalized_delta (filter validate_delta_structure kept),
             deltas_rejected := deltas_rejected ctx @ filter (\<lambda>d. \<not> validate_delta_structure d) kept,
             alerts := alerts ctx
                @ (if n > m then [fence_alert (tick_id ctx) (wall_clock_ts ctx) (n - m)] else [])
                @ map (reject_alert (tick_id ctx) (wall_clock_ts ctx))
                      (filter (\<lambda>d. \<not> validate_delta_structure d) kept),
             fenced := (n > m \<or> fenced ctx)\<rparr>)"
  by (simp add: step2_ingest_def ingest_loop_eq fence_survivors_def alert_def fence_alert_def Let_def)

lemma same_queues_refl [simp]: "same_queues c c"
  by (simp add: same_queues_def)

lemma same_queues_trans: "same_queues a b \<Longrightarrow> same_queues b c \<Longrightarrow> same_queues a c"
  by (simp add: same_queues_def)

lemma same_queues_alert [simp]: "same_queues c (alert c' l s m) = same_queues c c'"
  by (simp add: same_queues_def alert_def)

lemma same_queues_breach [simp]: "same_queues c (breach c' s m) = same_queues c c'"
  by (simp add: same_queues_def breach_def alert_def)

lemma same_queues_mark_breach [simp]: "same_queues c (mark_breach c' m) = same_queues c c'"
  by (simp add: same_queues_def mark_breach_def alert_def)

lemma same_queues_upd [simp]:
  "same_queues c (c'\<lparr>snapshot_out := so\<rparr>) = same_queues c c'"
  "same_queues c (c'\<lparr>inverse_deltas := iv\<rparr>) = same_queues c c'"
  "same_queues c (c'\<lparr>domain_views := dv\<rparr>) = same_queues c c'"
  "same_queues c (c'\<lparr>performance_tasks := pt\<rparr>) = same_queues c c'"
  "same_queues c (c'\<lparr>timeline_hash_ok := h\<rparr>) = same_queues c c'"
  by (simp_all add: same_queues_def)

lemma apply_loop_cases:
  "apply_loop k ds ctx st invs w = (r, ctx', st', invs', w') \<Longrightarrow>
     (r = None \<and> ctx' = ctx \<and> length invs' = length invs + length ds)
   \<or> (\<exists>e. r = Some e \<and> ctx' = ctx)
   \<or> (\<exists>msg. r = Some (RuntimeError ''Inverse Delta computation failed'')
            \<and> ctx' = breach ctx 6 msg)"
proof (induction ds arbitrary: st invs w)
  case Nil
  then show ?case by simp
next
  case (Cons d ds)
  then show ?case
    by (fastforce split: prod.splits sum.splits option.splits)
qed

lemma step6_cases:
  assumes "step6_apply_deltas self ctx w = (r, ctx', w')"
  shows "(breached ctx \<and> r = None \<and> ctx' = ctx \<and> w' = w)
   \<or> (\<not> breached ctx \<and> (\<exists>e. r = Some e) \<and> ctx' = ctx)
   \<or> (\<not> breached ctx \<and> (\<exists>m msg. r = Some (RuntimeError m) \<and> ctx' = breach ctx 6 msg))
   \<or> (\<not> breached ctx \<and> r = None \<and>
        (\<exists>sout invs. ctx' = ctx\<lparr>snapshot_out := Some sout, inverse_deltas := invs\<rparr>
           \<and> length invs = length (deltas_accepted ctx)))"
proof (cases "breached ctx")
  case True
  with assms show ?thesis by (simp add: step6_apply_deltas_def)
next
  case nb: False
  show ?thesis
  proof (cases "snapshot_in ctx")
    case None
    with nb assms show ?thesis by (auto simp: step6_apply_deltas_def)
  next
    case (Some snap)
    obtain r1 c1 st1 invs1 w1 where
      L: "apply_loop (zon4d self) (deltas_accepted ctx) ctx (zon4d_state snap) [] w
            = (r1, c1, st1, invs1, w1)"
      by (metis prod_cases5)
    from apply_loop_cases [OF L] nb Some assms L show ?thesis
      by (auto simp: step6_apply_deltas_def split: prod.splits sum.splits if_splits)
  qed
qed

lemma step10_forms:
  assumes "step10_generate_domain_views self ctx w = (ctx', w')"
  shows "ctx' = ctx \<or> (\<exists>dv. ctx' = ctx\<lparr>domain_views := dv\<rparr>) \<or> (\<exists>l m. ctx' = alert ctx l 10 m \<and> take 2 m \<noteq> ''Te'')"
proof (cases "breached ctx")
  case True
  with assms show ?thesis by (simp add: step10_generate_domain_views_def)
next
  case nb: False
  show ?thesis
  proof (cases "snapshot_out ctx")
    case None
    with nb assms show ?thesis by (simp add: step10_generate_domain_views_def)
  next
    case (Some sout)
    obtain res w1 where g: "generate_domain_views self (zon4d_state sout) (tick_id ctx) w = (res, w1)"
      by (cases "generate_domain_views self (zon4d_state sout) (tick_id ctx) w")
    show ?thesis
    proof (cases res)
      case (Inr pv)
      with assms Some nb g show ?thesis
        by (auto simp: step10_generate_domain_views_def split: if_splits)
    next
      case (Inl e)
      with assms Some nb g have
        "ctx' = alert ctx ''WARNING'' 10
                  ''domain_views module not available; skipping view generation''
         \<or> ctx' = alert ctx ''ERROR'' 10 (''Domain view generation failed: '' @ str_exc e)"
        by (cases e) (auto simp: step10_generate_domain_views_def)
      moreover have
        "take 2 ''domain_views module not available; skipping view generation'' \<noteq> ''Te''"
        "take 2 (''Domain view generation failed: '' @ str_exc e) \<noteq> ''Te''"
        by simp_all
      ultimately show ?thesis by blast
    qed
  qed
qed

lemma step11_forms:
  assumes "step11_schedule_performance self ctx w = (r, ctx', w')"
  shows "(ctx' = ctx \<and> (breached ctx \<or> r \<noteq> None))
     \<or> (\<exists>pt. ctx' = ctx\<lparr>performance_tasks := pt\<rparr> \<and> r \<noteq> None)
     \<or> (\<exists>m. ctx' = alert ctx ''INFO'' 11 m \<and> take 2 m \<noteq> ''Te'' \<and> r = None)
     \<or> (\<exists>pt m. ctx' = alert (ctx\<lparr>performance_tasks := pt\<rparr>) ''INFO'' 11 m
          \<and> take 2 m \<noteq> ''Te'' \<and> r = None)"
proof (cases "breached ctx")
  case True
  with assms show ?thesis by (simp add: step11_schedule_performance_def)
next
  case nb: False
  show ?thesis
  proof (cases "performer self")
    case None
    with nb assms have
      "ctx' = alert ctx ''INFO'' 11
                ''Tick complete (PerformerEngine not attached; performance no-op)''"
      "r = None"
      by (auto simp: step11_schedule_performance_def)
    moreover have
      "take 2 ''Tick complete (PerformerEngine not attached; performance no-op)'' \<noteq> ''Te''"
      by simp
    ultimately show ?thesis by blast
  next
    case (Some ps)
    obtain res w1 where p: "ps (tick_id ctx) (delta_time ctx) (domain_views ctx) w = (res, w1)"
      by (cases "ps (tick_id ctx) (delta_time ctx) (domain_views ctx) w")
    show ?thesis
    proof (cases res)
      case (Inl e)
      with assms Some nb p show ?thesis by (auto simp: step11_schedule_performance_def)
    next
      case (Inr tasks)
      obtain res2 w2 where a: "performance_abi self (tick_id ctx) tasks w1 = (res2, w2)"
        by (cases "performance_abi self (tick_id ctx) tasks w1")
      show ?thesis
      proof (cases res2)
        case (Inl e)
        with assms Some nb p Inr a show ?thesis
          by (auto simp: step11_schedule_performance_def Let_def)
      next
        case u: (Inr u)
        with assms Some nb p Inr a have
          "ctx' = alert (ctx\<lparr>performance_tasks := tasks\<rparr>) ''INFO'' 11
                    (''Tick complete (Performer scheduled '' @ str_nat (length tasks)
                       @ '' tasks)'')"
          "r = None"
          by (auto simp: step11_schedule_performance_def Let_def)
        moreover have
          "take 2 (''Tick complete (Performer scheduled '' @ str_nat (length tasks)
                     @ '' tasks)'') \<noteq> ''Te''"
          by simp
        ultimately show ?thesis by blast
      qed
    qed
  qed
qed

lemma ordered_ctx_breached:
  "breached ctx \<Longrightarrow> ordered_ctx self ctx = ctx\<lparr>deltas_accepted := deltas_ordered ctx\<rparr>"
  by (simp add: ordered_ctx_def step2_ingest_def step3_temporal_order_def)

lemma ordered_ctx_eq:
  assumes "\<not> breached ctx"
  shows "ordered_ctx self ctx =
     (let m = max_deltas_per_tick self; n = int (length (deltas_in ctx));
          kept = fence_survivors m (deltas_in ctx);
          valid = map normalized_delta (filter validate_delta_structure kept)
      in ctx\<lparr>deltas_in := valid,
             deltas_ordered := sort_key sort_key_delta valid,
             deltas_accepted := sort_key sort_key_delta valid,
             deltas_rejected := deltas_rejected ctx @ filter (\<lambda>d. \<not> validate_delta_structure d) kept,
             alerts := alerts ctx
                @ (if n > m then [fence_alert (tick_id ctx) (wall_clock_ts ctx) (n - m)] else [])
                @ map (reject_alert (tick_id ctx) (wall_clock_ts ctx))
                      (filter (\<lambda>d. \<not> validate_delta_structure d) kept),
             fenced := (n > m \<or> fenced ctx)\<rparr>)"
  using assms
  by (simp add: ordered_ctx_def step2_ingest_eq step3_temporal_order_def Let_def)

lemma ordered_ctx_kept:
  "breached (ordered_ctx self ctx) = breached ctx"
  "breach_step (ordered_ctx self ctx) = breach_step ctx"
  "snapshot_in (ordered_ctx self ctx) = snapshot_in ctx"
  "snapshot_out (ordered_ctx self ctx) = snapshot_out ctx"
  "inverse_deltas (ordered_ctx self ctx) = inverse_deltas ctx"
  "tick_id (ordered_ctx self ctx) = tick_id ctx"
  "wall_clock_ts (ordered_ctx self ctx) = wall_clock_ts ctx"
  "delta_time (ordered_ctx self ctx) = delta_time ctx"
  by (cases "breached ctx"; simp add: ordered_ctx_breached ordered_ctx_eq Let_def)+

lemma tick_body_eq:
  "tick_body self ctx w =
     (case step6_apply_deltas self (ordered_ctx self ctx) w of
        (Some e, ctx6, w6) \<Rightarrow> (Some e, ctx6, self, w6)
      | (None, ctx6, w6) \<Rightarrow>
          (case step10_generate_domain_views self ctx6 w6 of
             (ctx10, w10) \<Rightarrow>
               (case step11_schedule_performance self ctx10 w10 of
                  (Some e, ctx11, w11) \<Rightarrow> (Some e, ctx11, self, w11)
                | (None, ctx11, w11) \<Rightarrow>
                    (None, ctx11,
                     (if \<not> breached ctx11 \<and> snapshot_out ctx11 \<noteq> None
                      then self\<lparr>current_snapshot := snapshot_out ctx11\<rparr>
                      else self),
                     w11))))"
  by (simp add: tick_body_def ordered_ctx_def Let_def)

lemma tick_body_breached:
  assumes "breached ctx"
  shows "tick_body self ctx w = (None, ctx\<lparr>deltas_accepted := deltas_ordered ctx\<rparr>, self, w)"
  using assms
  by (simp add: tick_body_eq ordered_ctx_breached step6_apply_deltas_def
      step10_generate_domain_views_def step11_schedule_performance_def)

lemma step10_kept:
  assumes "step10_generate_domain_views self ctx w = (ctx', w')"
  shows "same_queues ctx ctx'" "breached ctx' = breached ctx" "breach_step ctx' = breach_step ctx"
    "snapshot_out ctx' = snapshot_out ctx" "inverse_deltas ctx' = inverse_deltas ctx"
    "\<exists>extra. alerts ctx' = alerts ctx @ extra \<and> (\<forall>a\<in>set extra. step a = 10 \<and> take 2 (message a) \<noteq> ''Te'')"
  using step10_forms [OF assms] by (auto simp: alert_def same_queues_def)

lemma step11_kept:
  assumes "step11_schedule_performance self ctx w = (r, ctx', w')"
  shows "same_queues ctx ctx'" "breached ctx' = breached ctx" "breach_step ctx' = breach_step ctx"
    "snapshot_out ctx' = snapshot_out ctx" "inverse_deltas ctx' = inverse_deltas ctx"
    "\<exists>extra. alerts ctx' = alerts ctx @ extra \<and> (\<forall>a\<in>set extra. step a = 11 \<and> take 2 (message a) \<noteq> ''Te'')"
  using step11_forms [OF assms] by (auto simp: alert_def same_queues_def)

lemma step6_kept:
  assumes "step6_apply_deltas self ctx w = (r, ctx', w')"
  shows "same_queues ctx ctx'"
    and "r = None \<Longrightarrow> breached ctx' = breached ctx \<and> breach_step ctx' = breach_step ctx
           \<and> alerts ctx' = alerts ctx"
    and "r = None \<Longrightarrow> \<not> breached ctx \<Longrightarrow>
           snapshot_out ctx' \<noteq> None
           \<and> length (inverse_deltas ctx') = length (deltas_accepted ctx')"
    and "r \<noteq> None \<Longrightarrow>
           (breached ctx' = breached ctx \<and> breach_step ctx' = breach_step ctx
              \<or> breached ctx' \<and> breach_step ctx' = Some 6 \<and> (\<exists>m. r = Some (RuntimeError m)))
           \<and> inverse_deltas ctx' = inverse_deltas ctx \<and> snapshot_out ctx' = snapshot_out ctx"
  using step6_cases [OF assms] by (auto simp: alert_def breach_def same_queues_def)

lemma tick_body_unbreached:
  assumes nb: "\<not> breached ctx"
    and tb: "tick_body self ctx w = (r, ctx', self', w')"
  shows "same_queues (ordered_ctx self ctx) ctx'"
    and "r = None \<Longrightarrow>
           \<not> breached ctx' \<and> breach_step ctx' = breach_step ctx \<and> snapshot_out ctx' \<noteq> None
           \<and> self' = self\<lparr>current_snapshot := snapshot_out ctx'\<rparr>
           \<and> length (inverse_deltas ctx') = length (deltas_accepted ctx')
           \<and> (\<exists>extra. alerts ctx' = alerts (ordered_ctx self ctx) @ extra
                  \<and> (\<forall>a\<in>set extra. (step a = 10 \<or> step a = 11) \<and> take 2 (message a) \<noteq> ''Te''))"
    and "r \<noteq> None \<Longrightarrow>
           self' = self
           \<and> (\<not> breached ctx' \<and> breach_step ctx' = breach_step ctx
               \<or> breached ctx' \<and> breach_step ctx' = Some 6
                  \<and> inverse_deltas ctx' = inverse_deltas ctx
                  \<and> snapshot_out ctx' = snapshot_out ctx)"
proof -
  let ?c4 = "ordered_ctx self ctx"
  have nb4: "\<not> breached ?c4" using nb by (simp add: ordered_ctx_kept)
  obtain r6 c6 w6 where s6: "step6_apply_deltas self ?c4 w = (r6, c6, w6)"
    by (metis prod_cases3)
  note k6 = step6_kept [OF s6]
  have all: "same_queues ?c4 ctx' \<and>
     (r = None \<longrightarrow>
           \<not> breached ctx' \<and> breach_step ctx' = breach_step ctx \<and> snapshot_out ctx' \<noteq> None
           \<and> self' = self\<lparr>current_snapshot := snapshot_out ctx'\<rparr>
           \<and> length (inverse_deltas ctx') = length (deltas_accepted ctx')
           \<and> (\<exists>extra. alerts ctx' = alerts ?c4 @ extra
                  \<and> (\<forall>a\<in>set extra. (step a = 10 \<or> step a = 11) \<and> take 2 (message a) \<noteq> ''Te''))) \<and>
     (r \<noteq> None \<longrightarrow>
           self' = self
           \<and> (\<not> breached ctx' \<and> breach_step ctx' = breach_step ctx
               \<or> breached ctx' \<and> breach_step ctx' = Some 6
                  \<and> inverse_deltas ctx' = inverse_deltas ctx
                  \<and> snapshot_out ctx' = snapshot_out ctx))"
  proof (cases r6)
    case (Some e)
    with tb s6 have eq: "r = Some e" "ctx' = c6" "self' = self"
      by (simp_all add: tick_body_eq)
    from k6(1) k6(4) Some eq nb4 show ?thesis
      by (auto simp: ordered_ctx_kept)
  next
    case None
    obtain c10 w10 where s10: "step10_generate_domain_views self c6 w6 = (c10, w10)"
      by (metis prod.exhaust)
    obtain r11 c11 w11 where s11: "step11_schedule_performance self c10 w10 = (r11, c11, w11)"
      by (metis prod_cases3)
    note k10 = step10_kept [OF s10]
    note k11 = step11_kept [OF s11]
    have q: "same_queues ?c4 c11"
      using k6(1) k10(1) k11(1) by (blast intro: same_queues_trans)
    have b: "\<not> breached c11" "breach_step c11 = breach_step ctx"
      using k6(2) k10(2,3) k11(2,3) None nb4 by (simp_all add: ordered_ctx_kept)
    have so: "snapshot_out c11 \<noteq> None" "length (inverse_deltas c11) = length (deltas_accepted c11)"
      using k6(1,3) k10(4,5) k11(4,5) None nb4 q by (simp_all add: same_queues_def)
    have al: "\<exists>extra. alerts c11 = alerts ?c4 @ extra
                  \<and> (\<forall>a\<in>set extra. (step a = 10 \<or> step a = 11) \<and> take 2 (message a) \<noteq> ''Te'')"
    proof -
      from k10(6) obtain e10 where e10: "alerts c10 = alerts c6 @ e10" "\<forall>a\<in>set e10. step a = 10 \<and> take 2 (message a) \<noteq> ''Te''"
        by blast
      from k11(6) obtain e11 where e11: "alerts c11 = alerts c10 @ e11" "\<forall>a\<in>set e11. step a = 11 \<and> take 2 (message a) \<noteq> ''Te''"
        by blast
      from k6(2) None have "alerts c6 = alerts ?c4" by simp
      with e10 e11 have "alerts c11 = alerts ?c4 @ (e10 @ e11)" by simp
      moreover have "\<forall>a\<in>set (e10 @ e11). (step a = 10 \<or> step a = 11) \<and> take 2 (message a) \<noteq> ''Te''"
        using e10(2) e11(2) by auto
      ultimately show ?thesis by blast
    qed
    show ?thesis
    proof (cases r11)
      case (Some e)
      with tb s6 s10 s11 None have eq: "r = Some e" "ctx' = c11" "self' = self"
        by (simp_all add: tick_body_eq)
      with q b show ?thesis by simp
    next
      case n11: None
      with tb s6 s10 s11 None b so have eq: "r = None" "ctx' = c11"
        "self' = self\<lparr>current_snapshot := snapshot_out c11\<rparr>"
        by (auto simp: tick_body_eq)
      with q b so al show ?thesis by simp
    qed
  qed
  from all show "same_queues (ordered_ctx self ctx) ctx'" by blast
  from all show "r = None \<Longrightarrow>
           \<not> breached ctx' \<and> breach_step ctx' = breach_step ctx \<and> snapshot_out ctx' \<noteq> None
           \<and> self' = self\<lparr>current_snapshot := snapshot_out ctx'\<rparr>
           \<and> length (inverse_deltas ctx') = length (deltas_accepted ctx')
           \<and> (\<exists>extra. alerts ctx' = alerts (ordered_ctx self ctx) @ extra
                  \<and> (\<forall>a\<in>set extra. (step a = 10 \<or> step a = 11) \<and> take 2 (message a) \<noteq> ''Te''))" by blast
  from all show "r \<noteq> None \<Longrightarrow>
           self' = self
           \<and> (\<not> breached ctx' \<and> breach_step ctx' = breach_step ctx
               \<or> breached ctx' \<and> breach_step ctx' = Some 6
                  \<and> inverse_deltas ctx' = inverse_deltas ctx
                  \<and> snapshot_out ctx' = snapshot_out ctx)" by blast
qed

lemma restore_anchor_cases:
  assumes "restore_anchor self ctx stp w = (r, ctx', self', w')"
  shows "(\<exists>e. r = Some e \<and> ctx' = ctx \<and> self' = self
            \<and> load_last_immutable_anchor (anchor_store self) w = (Inl e, w'))
       \<or> (r = None \<and> (\<exists>m. ctx' = alert ctx ''INFO'' stp m)
            \<and> self' = self\<lparr>current_snapshot := current_snapshot self'\<rparr>
            \<and> load_last_immutable_anchor (anchor_store self) w = (Inr (current_snapshot self'), w'))"
  using assms
  by (auto simp: restore_anchor_def split: prod.splits sum.splits)

lemma rollback_slow:
  assumes "breach_step_or ctx < 2 \<or> 7 < breach_step_or ctx \<or> inverse_deltas ctx = []"
  shows "rollback self ctx w =
     (case store_timeline_hash_ok (anchor_store self) w of
        (Inl e, w1) \<Rightarrow> (Some e, ctx, self, w1)
      | (Inr ok, w1) \<Rightarrow>
          restore_anchor self (ctx\<lparr>timeline_hash_ok := ok\<rparr>) (breach_step_or ctx) w1)"
  using assms
  by (auto simp: rollback_def Let_def split: prod.splits sum.splits)

lemma step1_init_eq:
  "step1_init self pending dviews dtime now w =
     (case store_timeline_hash_ok (anchor_store self) w of
        (Inl e, w1) \<Rightarrow> (Inl e, ticked self now, w1)
      | (Inr ok, w1) \<Rightarrow> (Inr (init_ctx self pending dviews dtime now ok), ticked self now, w1))"
  by (auto simp: step1_init_def init_ctx_def ticked_def Let_def split: prod.splits sum.splits option.splits)

lemma init_ctx_fields:
  "breached (init_ctx self pending dviews dtime now ok) = (\<not> ok)"
  "breach_step (init_ctx self pending dviews dtime now ok) = (if ok then None else Some 1)"
  "inverse_deltas (init_ctx self pending dviews dtime now ok) = []"
  "snapshot_out (init_ctx self pending dviews dtime now ok) = None"
  "deltas_ordered (init_ctx self pending dviews dtime now ok) = []"
  "deltas_in (init_ctx self pending dviews dtime now ok) = pending"
  "deltas_rejected (init_ctx self pending dviews dtime now ok) = []"
  "fenced (init_ctx self pending dviews dtime now ok) = False"
  "tick_id (init_ctx self pending dviews dtime now ok) = tick_counter self + 1"
  "wall_clock_ts (init_ctx self pending dviews dtime now ok) = now"
  "snapshot_in (init_ctx self pending dviews dtime now ok) = current_snapshot self"
  "delta_time (init_ctx self pending dviews dtime now ok) =
     (case dtime of Some d \<Rightarrow> max d 0
      | None \<Rightarrow> (case last_wall_clock_ts self of None \<Rightarrow> 0 | Some l \<Rightarrow> max (now - l) 0))"
  "ok \<Longrightarrow> alerts (init_ctx self pending dviews dtime now ok) = []"
  by (simp_all add: init_ctx_def breach_def alert_def Let_def)

lemma ticked_fields [simp]:
  "anchor_store (ticked self now) = anchor_store self"
  "zon4d (ticked self now) = zon4d self"
  "max_deltas_per_tick (ticked self now) = max_deltas_per_tick self"
  "current_snapshot (ticked self now) = current_snapshot self"
  "performer (ticked self now) = performer self"
  "performance_abi (ticked self now) = performance_abi self"
  by (simp_all add: ticked_def)

lemma run_tick_rollback_call:
  "rollback_call self pending dviews dtime now w = Some (s, c, v) \<Longrightarrow>
   run_tick self pending dviews dtime now w =
     (case rollback s c v of
        (Some e, c', s', v') \<Rightarrow> (Inl e, s', v')
      | (None, c', s', v') \<Rightarrow> (Inr c', s', v'))"
  by (auto simp: rollback_call_def run_tick_def
      split: prod.splits sum.splits option.splits exc.splits if_splits)

lemma breach_step_or_mark_breach [simp]:
  "breach_step_or (mark_breach c m) = breach_step_or c"
  "inverse_deltas (mark_breach c m) = inverse_deltas c"
  "breached (mark_breach c m)"
  "breach_step (mark_breach c m) = breach_step c"
  "snapshot_out (mark_breach c m) = snapshot_out c"
  by (simp_all add: mark_breach_def breach_step_or_def alert_def)

lemma rollback_call_facts:
  assumes "rollback_call self pending dviews dtime now w = Some (s, c, v)"
  shows "breach_step_or c < 2 \<or> 7 < breach_step_or c \<or> inverse_deltas c = []"
    and "breached c"
    and "\<exists>ok w1. store_timeline_hash_ok (anchor_store self) w = (Inr ok, w1)
           \<and> same_queues (ordered_ctx (ticked self now) (init_ctx self pending dviews dtime now ok)) c
           \<and> (ok \<longleftrightarrow> breach_step c \<noteq> Some 1)"
    and "s = ticked self now"
proof -
  from assms obtain ok w1 where
    h: "store_timeline_hash_ok (anchor_store self) w = (Inr ok, w1)"
    by (auto simp: rollback_call_def step1_init_eq split: prod.splits sum.splits)
  let ?c1 = "init_ctx self pending dviews dtime now ok"
  let ?s1 = "ticked self now"
  obtain r c' s' w' where tb: "tick_body ?s1 ?c1 w1 = (r, c', s', w')"
    by (metis prod_cases4)
  have "(breach_step_or c < 2 \<or> 7 < breach_step_or c \<or> inverse_deltas c = [])
      \<and> breached c \<and> same_queues (ordered_ctx ?s1 ?c1) c \<and> (ok \<longleftrightarrow> breach_step c \<noteq> Some 1)
      \<and> s = ?s1"
  proof (cases ok)
    case False
    then have b: "breached ?c1" by (simp add: init_ctx_fields)
    from tick_body_breached [OF b, of ?s1 w1] tb
    have "r = None" "c' = ?c1\<lparr>deltas_accepted := deltas_ordered ?c1\<rparr>" "s' = ?s1" "w' = w1"
      by simp_all
    with assms h tb b False have "c = ?c1\<lparr>deltas_accepted := deltas_ordered ?c1\<rparr>" "s = ?s1"
      by (auto simp: rollback_call_def step1_init_eq)
    with b False show ?thesis
      by (simp add: ordered_ctx_breached init_ctx_fields breach_step_or_def)
  next
    case True
    then have nb: "\<not> breached ?c1" by (simp add: init_ctx_fields)
    note t = tick_body_unbreached [OF nb tb]
    show ?thesis
    proof (cases r)
      case None
      with t(2) have "\<not> breached c'" by simp
      with assms h tb None show ?thesis
        by (simp add: rollback_call_def step1_init_eq)
    next
      case (Some e)
      with assms h tb obtain m where e: "e = RuntimeError m" and c: "c = mark_breach c' m" "s = s'"
        by (cases e) (auto simp: rollback_call_def step1_init_eq)
      from t(3) Some have s': "s' = ?s1"
        and d: "\<not> breached c' \<and> breach_step c' = breach_step ?c1
               \<or> breached c' \<and> breach_step c' = Some 6
                  \<and> inverse_deltas c' = inverse_deltas ?c1
                  \<and> snapshot_out c' = snapshot_out ?c1" by simp_all
      from d True have "breach_step_or c < 2 \<or> 7 < breach_step_or c \<or> inverse_deltas c = []"
        "breach_step c \<noteq> Some 1"
        using c by (auto simp: init_ctx_fields breach_step_or_def)
      with t(1) c s' True show ?thesis by simp
    qed
  qed
  with h show "breach_step_or c < 2 \<or> 7 < breach_step_or c \<or> inverse_deltas c = []"
    and "breached c"
    and "\<exists>ok w1. store_timeline_hash_ok (anchor_store self) w = (Inr ok, w1)
           \<and> same_queues (ordered_ctx (ticked self now) (init_ctx self pending dviews dtime now ok)) c
           \<and> (ok \<longleftrightarrow> breach_step c \<noteq> Some 1)"
    and "s = ticked self now"
    by blast+
qed

lemma rollback_call_None:
  assumes "rollback_call self pending dviews dtime now w = None"
    and "run_tick self pending dviews dtime now w = (Inr ctx', self', w')"
  shows "\<exists>w1. store_timeline_hash_ok (anchor_store self) w = (Inr True, w1)
           \<and> tick_body (ticked self now) (init_ctx self pending dviews dtime now True) w1
               = (None, ctx', self', w')"
    and "\<not> breached ctx'"
proof -
  from assms(2) obtain ok w1 where
    h: "store_timeline_hash_ok (anchor_store self) w = (Inr ok, w1)"
    by (auto simp: run_tick_def step1_init_eq split: prod.splits sum.splits)
  let ?c1 = "init_ctx self pending dviews dtime now ok"
  let ?s1 = "ticked self now"
  obtain r c' s' v where tb: "tick_body ?s1 ?c1 w1 = (r, c', s', v)"
    by (metis prod_cases4)
  have r: "r = None" "\<not> breached c'"
    using assms h tb
    by (auto simp: rollback_call_def run_tick_def step1_init_eq
        split: option.splits exc.splits if_splits)
  with assms(2) h tb have eq: "c' = ctx'" "s' = self'" "v = w'"
    by (auto simp: run_tick_def step1_init_eq)
  have ok
  proof (rule ccontr)
    assume "\<not> ok"
    then have b: "breached ?c1" by (simp add: init_ctx_fields)
    from tick_body_breached [OF b, of ?s1 w1] tb r show False
      using b by auto
  qed
  with h tb r eq show "\<exists>w1. store_timeline_hash_ok (anchor_store self) w = (Inr True, w1)
           \<and> tick_body (ticked self now) (init_ctx self pending dviews dtime now True) w1
               = (None, ctx', self', w')" by auto
  from r eq show "\<not> breached ctx'" by simp
qed

lemma run_tick_rolled_back:
  assumes rc: "rollback_call self pending dviews dtime now w = Some (s, c, v)"
    and rt: "run_tick self pending dviews dtime now w = (Inr ctx', self', w')"
  shows "\<exists>ok stp m v1. store_timeline_hash_ok (anchor_store self) v = (Inr ok, v1)
           \<and> ctx' = alert (c\<lparr>timeline_hash_ok := ok\<rparr>) ''INFO'' stp m
           \<and> load_last_immutable_anchor (anchor_store self) v1
               = (Inr (current_snapshot self'), w')"
proof -
  note f = rollback_call_facts [OF rc]
  from run_tick_rollback_call [OF rc] rt
  have rb: "(case rollback s c v of
        (Some e, c', s', v') \<Rightarrow> (Inl e, s', v')
      | (None, c', s', v') \<Rightarrow> (Inr c', s', v')) = (Inr ctx', self', w')" by simp
  obtain r c2 s2 v2 where R: "rollback s c v = (r, c2, s2, v2)" by (metis prod_cases4)
  with rb have r: "r = None" "c2 = ctx'" "s2 = self'" "v2 = w'"
    by (auto split: option.splits)
  from R [unfolded rollback_slow [OF f(1)]] r f(4)
  obtain ok v1 where h: "store_timeline_hash_ok (anchor_store self) v = (Inr ok, v1)"
    and ra: "restore_anchor s (c\<lparr>timeline_hash_ok := ok\<rparr>) (breach_step_or c) v1
              = (None, ctx', self', w')"
    by (auto split: prod.splits sum.splits)
  from restore_anchor_cases [OF ra] f(4) h show ?thesis by auto
qed

lemma run_tick_Inr:
  assumes rt: "run_tick self pending dviews dtime now w = (Inr ctx', self', w')"
  shows "\<exists>ok w1. store_timeline_hash_ok (anchor_store self) w = (Inr ok, w1)
           \<and> same_queues (ordered_ctx (ticked self now)
                 (init_ctx self pending dviews dtime now ok)) ctx'
           \<and> (ok \<longleftrightarrow> breach_step ctx' \<noteq> Some 1)"
    and "\<not> breached ctx' \<Longrightarrow>
           snapshot_out ctx' \<noteq> None \<and> current_snapshot self' = snapshot_out ctx'
           \<and> length (inverse_deltas ctx') = length (deltas_accepted ctx')
           \<and> breach_step ctx' = None
           \<and> (\<exists>extra. alerts ctx' = alerts (ordered_ctx (ticked self now)
                    (init_ctx self pending dviews dtime now True)) @ extra
                  \<and> (\<forall>a\<in>set extra. (step a = 10 \<or> step a = 11) \<and> take 2 (message a) \<noteq> ''Te''))"
    and "breached ctx' \<Longrightarrow>
           \<exists>wa. load_last_immutable_anchor (anchor_store self) wa
                   = (Inr (current_snapshot self'), w')"
proof -
  let ?rc = "rollback_call self pending dviews dtime now w"
  have "(\<exists>ok w1. store_timeline_hash_ok (anchor_store self) w = (Inr ok, w1)
           \<and> same_queues (ordered_ctx (ticked self now)
                 (init_ctx self pending dviews dtime now ok)) ctx'
           \<and> (ok \<longleftrightarrow> breach_step ctx' \<noteq> Some 1))
     \<and> (\<not> breached ctx' \<longrightarrow>
           snapshot_out ctx' \<noteq> None \<and> current_snapshot self' = snapshot_out ctx'
           \<and> length (inverse_deltas ctx') = length (deltas_accepted ctx')
           \<and> breach_step ctx' = None
           \<and> (\<exists>extra. alerts ctx' = alerts (ordered_ctx (ticked self now)
                    (init_ctx self pending dviews dtime now True)) @ extra
                  \<and> (\<forall>a\<in>set extra. (step a = 10 \<or> step a = 11) \<and> take 2 (message a) \<noteq> ''Te'')))
     \<and> (breached ctx' \<longrightarrow>
           (\<exists>wa. load_last_immutable_anchor (anchor_store self) wa
                   = (Inr (current_snapshot self'), w')))"
  proof (cases ?rc)
    case None
    from rollback_call_None [OF None rt] obtain w1 where
      h: "store_timeline_hash_ok (anchor_store self) w = (Inr True, w1)"
      and tb: "tick_body (ticked self now) (init_ctx self pending dviews dtime now True) w1
               = (None, ctx', self', w')"
      and nb: "\<not> breached ctx'" by blast
    have nb1: "\<not> breached (init_ctx self pending dviews dtime now True)"
      by (simp add: init_ctx_fields)
    note t = tick_body_unbreached [OF nb1 tb]
    from t(2) have t2: "breach_step ctx' = None" "snapshot_out ctx' \<noteq> None"
      "self' = (ticked self now)\<lparr>current_snapshot := snapshot_out ctx'\<rparr>"
      "length (inverse_deltas ctx') = length (deltas_accepted ctx')"
      "\<exists>extra. alerts ctx' = alerts (ordered_ctx (ticked self now)
                    (init_ctx self pending dviews dtime now True)) @ extra
                  \<and> (\<forall>a\<in>set extra. (step a = 10 \<or> step a = 11) \<and> take 2 (message a) \<noteq> ''Te'')"
      by (simp_all add: init_ctx_fields)
    from t2(3) have cs: "current_snapshot self' = snapshot_out ctx'" by simp
    from h t(1) t2(1) have "\<exists>ok w1. store_timeline_hash_ok (anchor_store self) w = (Inr ok, w1)
           \<and> same_queues (ordered_ctx (ticked self now)
                 (init_ctx self pending dviews dtime now ok)) ctx'
           \<and> (ok \<longleftrightarrow> breach_step ctx' \<noteq> Some 1)" by auto
    with nb t2 cs show ?thesis by blast
  next
    case (Some a)
    obtain s c v where a: "a = (s, c, v)" by (metis prod_cases3)
    with Some have rc: "?rc = Some (s, c, v)" by simp
    note f = rollback_call_facts [OF rc]
    from run_tick_rolled_back [OF rc rt] obtain ok stp m v1 where
      c: "ctx' = alert (c\<lparr>timeline_hash_ok := ok\<rparr>) ''INFO'' stp m"
      and l: "load_last_immutable_anchor (anchor_store self) v1
               = (Inr (current_snapshot self'), w')" by blast
    from c f(2) have b: "breached ctx'" by (simp add: alert_def)
    from c have bs: "breach_step ctx' = breach_step c" by (simp add: alert_def)
    from c have sq: "same_queues c ctx'" by (simp add: same_queues_def alert_def)
    from f(3) sq bs have "\<exists>ok w1. store_timeline_hash_ok (anchor_store self) w = (Inr ok, w1)
           \<and> same_queues (ordered_ctx (ticked self now)
                 (init_ctx self pending dviews dtime now ok)) ctx'
           \<and> (ok \<longleftrightarrow> breach_step ctx' \<noteq> Some 1)"
      by (metis same_queues_trans)
    with b l show ?thesis by blast
  qed
  then show "\<exists>ok w1. store_timeline_hash_ok (anchor_store self) w = (Inr ok, w1)
           \<and> same_queues (ordered_ctx (ticked self now)
                 (init_ctx self pending dviews dtime now ok)) ctx'
           \<and> (ok \<longleftrightarrow> breach_step ctx' \<noteq> Some 1)"
    and "\<not> breached ctx' \<Longrightarrow>
           snapshot_out ctx' \<noteq> None \<and> current_snapshot self' = snapshot_out ctx'
           \<and> length (inverse_deltas ctx') = length (deltas_accepted ctx')
           \<and> breach_step ctx' = None
           \<and> (\<exists>extra. alerts ctx' = alerts (ordered_ctx (ticked self now)
                    (init_ctx self pending dviews dtime now True)) @ extra
                  \<and> (\<forall>a\<in>set extra. (step a = 10 \<or> step a = 11) \<and> take 2 (message a) \<noteq> ''Te''))"
    and "breached ctx' \<Longrightarrow>
           \<exists>wa. load_last_immutable_anchor (anchor_store self) wa
                   = (Inr (current_snapshot self'), w')"
    by blast+
qed

section \<open>Properties of a tick\<close>

subsection \<open>The time step\<close>

text \<open>
  C10. A call of \<^verbatim>\<open>run_tick\<close> with an explicit \<^verbatim>\<open>delta_time\<close> \<open>d\<close> returns a context
  whose \<^verbatim>\<open>delta_time\<close> is \<open>max d 0\<close>, so a negative override becomes \<open>0\<close>; the returned
  \<^verbatim>\<open>delta_time\<close> is never negative; and on the first call of a runtime (one just built by
  the constructor, which has stored no wall clock yet) with \<^verbatim>\<open>delta_time\<close> omitted it is
  exactly \<open>0\<close>.
\<close>

theorem run_tick_delta_time:
  assumes "run_tick self pending dviews dtime now w = (Inr ctx, self', w')"
  shows "(\<forall>d. dtime = Some d \<longrightarrow> delta_time ctx = max d 0)
       \<and> 0 \<le> delta_time ctx
       \<and> (dtime = None \<and> last_wall_clock_ts self = None \<longrightarrow> delta_time ctx = 0)
       \<and> (\<forall>store kern config perf abi gen w0 w1.
             init_runtime store kern config perf abi gen w0 = (Inr self, w1) \<and> dtime = None
               \<longrightarrow> delta_time ctx = 0)"
proof -
  from run_tick_Inr(1) [OF assms] obtain ok where
    "same_queues (ordered_ctx (ticked self now) (init_ctx self pending dviews dtime now ok)) ctx"
    by blast
  then have dt: "delta_time ctx =
      (case dtime of Some d \<Rightarrow> max d 0
       | None \<Rightarrow> (case last_wall_clock_ts self of None \<Rightarrow> 0 | Some l \<Rightarrow> max (now - l) 0))"
    by (simp add: same_queues_def ordered_ctx_kept init_ctx_fields)
  have fresh: "last_wall_clock_ts self = None"
    if "init_runtime store kern config perf abi gen w0 = (Inr self, w1)"
    for store :: "('c, 'f) AnchorStore" and kern :: "('a, 'b, 'c, 'f) ZON4DKernel"
      and config perf abi gen w0 w1
    using that by (auto simp: init_runtime_def split: prod.splits sum.splits)
  from dt show ?thesis
    by (auto split: option.splits dest: fresh)
qed

theorem run_tick_delta_time_witness:
  "(case run_tick (test_runtime TestZON4DKernel 1024) [] None (Some (- 5 / 2)) 100 True of
      (Inr ctx, s, w) \<Rightarrow> delta_time ctx = 0
    | (Inl e, s, w) \<Rightarrow> False)"
proof -
  have "\<exists>ctx s w. run_tick (test_runtime TestZON4DKernel 1024) [] None (Some (- 5 / 2)) 100 True
          = (Inr ctx, s, w)"
    by (auto simp: run_tick_defs test_defs)
  then obtain ctx s w where
    r: "run_tick (test_runtime TestZON4DKernel 1024) [] None (Some (- 5 / 2)) 100 True
          = (Inr ctx, s, w)" by blast
  from run_tick_delta_time [OF r] have "delta_time ctx = max (- 5 / 2) 0" by blast
  with r show ?thesis by simp
qed

lemma run_tick_queues:
  assumes rt: "run_tick self pending dviews dtime now w = (Inr ctx, self', w')"
    and ns: "breach_step ctx \<noteq> Some 1"
  shows "deltas_in ctx = map normalized_delta (filter validate_delta_structure
            (fence_survivors (max_deltas_per_tick self) pending))"
    and "deltas_ordered ctx = sort_key sort_key_delta (deltas_in ctx)"
    and "deltas_accepted ctx = deltas_ordered ctx"
    and "deltas_rejected ctx = filter (\<lambda>d. \<not> validate_delta_structure d)
            (fence_survivors (max_deltas_per_tick self) pending)"
    and "fenced ctx \<longleftrightarrow> int (length pending) > max_deltas_per_tick self"
    and "tick_id ctx = tick_counter self + 1"
    and "wall_clock_ts ctx = now"
proof -
  from run_tick_Inr(1) [OF rt] ns have
    sq: "same_queues (ordered_ctx (ticked self now) (init_ctx self pending dviews dtime now True)) ctx"
    by auto
  have nb: "\<not> breached (init_ctx self pending dviews dtime now True)"
    by (simp add: init_ctx_fields)
  note e = ordered_ctx_eq [OF nb, of "ticked self now"]
  from sq show "deltas_in ctx = map normalized_delta (filter validate_delta_structure
            (fence_survivors (max_deltas_per_tick self) pending))"
    by (simp add: same_queues_def e Let_def init_ctx_fields)
  from sq show "deltas_ordered ctx = sort_key sort_key_delta (deltas_in ctx)"
    by (simp add: same_queues_def e Let_def init_ctx_fields)
  from sq show "deltas_accepted ctx = deltas_ordered ctx"
    by (simp add: same_queues_def e Let_def init_ctx_fields)
  from sq show "deltas_rejected ctx = filter (\<lambda>d. \<not> validate_delta_structure d)
            (fence_survivors (max_deltas_per_tick self) pending)"
    by (simp add: same_queues_def e Let_def init_ctx_fields)
  from sq show "fenced ctx \<longleftrightarrow> int (length pending) > max_deltas_per_tick self"
    by (simp add: same_queues_def e Let_def init_ctx_fields)
  from sq show "tick_id ctx = tick_counter self + 1"
    by (simp add: same_queues_def ordered_ctx_kept init_ctx_fields)
  from sq show "wall_clock_ts ctx = now"
    by (simp add: same_queues_def ordered_ctx_kept init_ctx_fields)
qed

lemma run_tick_alerts:
  assumes rt: "run_tick self pending dviews dtime now w = (Inr ctx, self', w')"
    and nb: "\<not> breached ctx"
  shows "\<exists>extra. alerts ctx =
           (if int (length pending) > max_deltas_per_tick self
            then [fence_alert (tick_counter self + 1) now
                    (int (length pending) - max_deltas_per_tick self)]
            else [])
           @ map (reject_alert (tick_counter self + 1) now)
               (filter (\<lambda>d. \<not> validate_delta_structure d)
                  (fence_survivors (max_deltas_per_tick self) pending))
           @ extra
         \<and> (\<forall>a\<in>set extra. (step a = 10 \<or> step a = 11) \<and> take 2 (message a) \<noteq> ''Te'')"
proof -
  have nb1: "\<not> breached (init_ctx self pending dviews dtime now True)"
    by (simp add: init_ctx_fields)
  note e = ordered_ctx_eq [OF nb1, of "ticked self now"]
  from run_tick_Inr(2) [OF rt nb] obtain extra where
    "alerts ctx = alerts (ordered_ctx (ticked self now)
                    (init_ctx self pending dviews dtime now True)) @ extra"
    "\<forall>a\<in>set extra. (step a = 10 \<or> step a = 11) \<and> take 2 (message a) \<noteq> ''Te''" by blast
  then show ?thesis
    by (simp add: e Let_def init_ctx_fields)
qed

lemma validate_normalized [simp]:
  "validate_delta_structure (normalized_delta d) = validate_delta_structure d"
  by (simp add: validate_delta_structure_def normalized_delta_def)

subsection \<open>Structural validation\<close>

text \<open>
  C9. On a tick that does not breach, a delta that survives the temporal fence is moved to
  the rejected queue, with a WARNING alert of step 2 that names it, if and only if its
  \<^verbatim>\<open>id\<close>, \<^verbatim>\<open>source_id\<close> or \<^verbatim>\<open>entity_ref\<close> is empty, or the start of its temporal
  scope exceeds the end, or it has more than 64 parents. Every other delta proceeds,
  normalized, to ordering; the tick continues and produces its output snapshot.
\<close>

theorem structural_rejection:
  assumes rt: "run_tick self pending dviews dtime now w = (Inr ctx, self', w')"
    and nb: "\<not> breached ctx"
    and d: "d \<in> set (fence_survivors (max_deltas_per_tick self) pending)"
  shows "(d \<in> set (deltas_rejected ctx) \<longleftrightarrow>
            delta_id d = [] \<or> source_id d = [] \<or> entity_ref d = []
            \<or> fst (temporal_scope d) > snd (temporal_scope d)
            \<or> length (parent_ids d) > 64)
       \<and> (d \<in> set (deltas_rejected ctx) \<longrightarrow>
            \<lparr>level = ''WARNING'', step = 2,
             message = ''Rejected malformed Delta '' @ delta_id d,
             alert_tick = tick_id ctx, ts = wall_clock_ts ctx\<rparr> \<in> set (alerts ctx)
            \<and> normalized_delta d \<notin> set (deltas_ordered ctx))
       \<and> (d \<notin> set (deltas_rejected ctx) \<longrightarrow>
            normalized_delta d \<in> set (deltas_in ctx)
            \<and> normalized_delta d \<in> set (deltas_ordered ctx))
       \<and> snapshot_out ctx \<noteq> None"
proof -
  from run_tick_Inr(2) [OF rt nb] have bs: "breach_step ctx \<noteq> Some 1"
    and so: "snapshot_out ctx \<noteq> None" by simp_all
  note q = run_tick_queues [OF rt bs]
  let ?kept = "fence_survivors (max_deltas_per_tick self) pending"
  have rej: "d \<in> set (deltas_rejected ctx) \<longleftrightarrow> \<not> validate_delta_structure d"
    using d by (simp add: q(4))
  have iff: "\<not> validate_delta_structure d \<longleftrightarrow>
            delta_id d = [] \<or> source_id d = [] \<or> entity_ref d = []
            \<or> fst (temporal_scope d) > snd (temporal_scope d)
            \<or> length (parent_ids d) > 64"
    by (auto simp: validate_delta_structure_def)
  have ord: "set (deltas_ordered ctx) = normalized_delta ` {x \<in> set ?kept. validate_delta_structure x}"
    by (simp add: q(1,2))
  have notin: "normalized_delta d \<notin> set (deltas_ordered ctx)" if "\<not> validate_delta_structure d"
  proof
    assume "normalized_delta d \<in> set (deltas_ordered ctx)"
    with ord obtain x where "validate_delta_structure x" "normalized_delta d = normalized_delta x"
      by auto
    then have "validate_delta_structure (normalized_delta d)" by simp
    with that show False by simp
  qed
  have isin: "normalized_delta d \<in> set (deltas_in ctx) \<and> normalized_delta d \<in> set (deltas_ordered ctx)"
    if "validate_delta_structure d"
    using that d by (simp add: q(1,2))
  have al: "\<lparr>level = ''WARNING'', step = 2,
             message = ''Rejected malformed Delta '' @ delta_id d,
             alert_tick = tick_id ctx, ts = wall_clock_ts ctx\<rparr> \<in> set (alerts ctx)"
    if "\<not> validate_delta_structure d"
  proof -
    from run_tick_alerts [OF rt nb] obtain pre extra where
      "alerts ctx = pre @ map (reject_alert (tick_counter self + 1) now)
               (filter (\<lambda>d. \<not> validate_delta_structure d) ?kept) @ extra"
      by blast
    moreover have "reject_alert (tick_counter self + 1) now d
        \<in> set (map (reject_alert (tick_counter self + 1) now)
               (filter (\<lambda>d. \<not> validate_delta_structure d) ?kept))"
      using that d by simp
    ultimately have "reject_alert (tick_counter self + 1) now d \<in> set (alerts ctx)" by simp
    then show ?thesis by (simp add: reject_alert_def q(6,7))
  qed
  from rej iff notin isin al so show ?thesis by blast
qed

theorem structural_rejection_witness:
  "(case run_tick (test_runtime TestZON4DKernel 1024)
           [add_delta ''d1'' 1 1, add_delta [] 2 1] None None 100 True of
      (Inr ctx, s, w) \<Rightarrow>
        \<not> breached ctx \<and> add_delta [] 2 1 \<in> set (deltas_rejected ctx)
        \<and> add_delta ''d1'' 1 1 \<notin> set (deltas_rejected ctx)
    | (Inl e, s, w) \<Rightarrow> False)"
proof -
  let ?p = "[add_delta ''d1'' 1 1, add_delta [] 2 1]"
  let ?rt = "test_runtime TestZON4DKernel 1024"
  have "\<exists>ctx s w. run_tick ?rt ?p None None 100 True = (Inr ctx, s, w) \<and> \<not> breached ctx"
    by (auto simp: run_tick_defs test_defs)
  then obtain ctx s w where r: "run_tick ?rt ?p None None 100 True = (Inr ctx, s, w)"
    and nb: "\<not> breached ctx" by blast
  have m1: "add_delta [] 2 1 \<in> set (fence_survivors (max_deltas_per_tick ?rt) ?p)"
    and m2: "add_delta ''d1'' 1 1 \<in> set (fence_survivors (max_deltas_per_tick ?rt) ?p)"
    by (simp_all add: fence_survivors_def test_defs)
  from structural_rejection [OF r nb m1] have "add_delta [] 2 1 \<in> set (deltas_rejected ctx)"
    by (simp add: add_delta_def)
  moreover from structural_rejection [OF r nb m2]
  have "add_delta ''d1'' 1 1 \<notin> set (deltas_rejected ctx)"
    by (simp add: add_delta_def)
  ultimately show ?thesis using r nb by simp
qed

subsection \<open>The temporal fence\<close>

lemma fence_survivors_nonneg:
  "0 \<le> m \<Longrightarrow> fence_survivors m xs = (if int (length xs) > m then take (nat m) xs else xs)"
  by (simp add: fence_survivors_def slice_to_def)

lemma filter_fence_reject [simp]:
  "filter (\<lambda>a. level a = ''WARNING'' \<and> take 16 (message a) = ''Temporal fence: '')
     (map (reject_alert tid t) ds) = []"
  by (induction ds) (simp_all add: reject_alert_def)

lemma filter_fence_later:
  assumes "\<forall>a\<in>set extra. (step a = 10 \<or> step a = 11) \<and> take 2 (message a) \<noteq> ''Te''"
  shows "filter (\<lambda>a. level a = ''WARNING'' \<and> take 16 (message a) = ''Temporal fence: '') extra = []"
proof -
  have "take 2 m = ''Te''" if "take 16 m = ''Temporal fence: ''" for m :: string
  proof -
    have "take 2 m = take 2 (take 16 m)" by simp
    with that show ?thesis by simp
  qed
  with assms show ?thesis by (auto simp: filter_empty_conv)
qed

text \<open>
  C8. The limit \<^verbatim>\<open>max_deltas_per_tick\<close> is a count, \<open>m \<ge> 0\<close>. On a tick that does not
  breach, with \<open>n\<close> pending deltas: if \<open>n > m\<close>, exactly the first \<open>m\<close> pending deltas
  are kept for processing (so \<open>m\<close> are accepted when all are structurally valid), the
  context is fenced, exactly one WARNING alert records the overflow, and it records
  \<open>n - m\<close>; the tick is no failure: it produces and commits its output snapshot. If
  \<open>n \<le> m\<close>, the context is not fenced, no delta is dropped and there is no such alert.
\<close>

theorem temporal_fence:
  assumes rt: "run_tick self pending dviews dtime now w = (Inr ctx, self', w')"
    and nb: "\<not> breached ctx"
    and m0: "0 \<le> max_deltas_per_tick self"
  shows "(int (length pending) > max_deltas_per_tick self \<longrightarrow>
            fenced ctx
            \<and> deltas_in ctx = map normalized_delta (filter validate_delta_structure
                  (take (nat (max_deltas_per_tick self)) pending))
            \<and> deltas_rejected ctx = filter (\<lambda>d. \<not> validate_delta_structure d)
                  (take (nat (max_deltas_per_tick self)) pending)
            \<and> length (deltas_accepted ctx) + length (deltas_rejected ctx)
                = nat (max_deltas_per_tick self)
            \<and> ((\<forall>d\<in>set pending. validate_delta_structure d) \<longrightarrow>
                  length (deltas_accepted ctx) = nat (max_deltas_per_tick self))
            \<and> filter (\<lambda>a. level a = ''WARNING'' \<and> take 16 (message a) = ''Temporal fence: '')
                  (alerts ctx)
                = [\<lparr>level = ''WARNING'', step = 2,
                    message = ''Temporal fence: ''
                      @ str_int (int (length pending) - max_deltas_per_tick self)
                      @ '' Deltas pushed to next Tick'',
                    alert_tick = tick_id ctx, ts = wall_clock_ts ctx\<rparr>])
       \<and> (int (length pending) \<le> max_deltas_per_tick self \<longrightarrow>
            \<not> fenced ctx
            \<and> deltas_in ctx = map normalized_delta (filter validate_delta_structure pending)
            \<and> deltas_rejected ctx = filter (\<lambda>d. \<not> validate_delta_structure d) pending
            \<and> length (deltas_accepted ctx) + length (deltas_rejected ctx) = length pending
            \<and> filter (\<lambda>a. level a = ''WARNING'' \<and> take 16 (message a) = ''Temporal fence: '')
                  (alerts ctx) = [])
       \<and> snapshot_out ctx \<noteq> None \<and> current_snapshot self' = snapshot_out ctx"
proof -
  let ?m = "max_deltas_per_tick self"
  let ?P = "\<lambda>a. level a = ''WARNING'' \<and> take 16 (message a) = ''Temporal fence: ''"
  from run_tick_Inr(2) [OF rt nb] have bs: "breach_step ctx \<noteq> Some 1"
    and so: "snapshot_out ctx \<noteq> None" "current_snapshot self' = snapshot_out ctx" by simp_all
  note q = run_tick_queues [OF rt bs]
  note fs = fence_survivors_nonneg [OF m0, of pending]
  from run_tick_alerts [OF rt nb] obtain extra where
    al: "alerts ctx =
           (if int (length pending) > ?m
            then [fence_alert (tick_counter self + 1) now (int (length pending) - ?m)]
            else [])
           @ map (reject_alert (tick_counter self + 1) now)
               (filter (\<lambda>d. \<not> validate_delta_structure d) (fence_survivors ?m pending))
           @ extra"
    and ex: "\<forall>a\<in>set extra. (step a = 10 \<or> step a = 11) \<and> take 2 (message a) \<noteq> ''Te''"
    by blast
  have len: "length (deltas_accepted ctx) + length (deltas_rejected ctx)
      = length (fence_survivors ?m pending)"
    by (simp add: q(1,2,3,4) sum_length_filter_compl)
  have over: ?thesis if n: "int (length pending) > ?m"
  proof -
    have l: "length (take (nat ?m) pending) = nat ?m" using n m0 by simp
    have allv: "length (deltas_accepted ctx) = nat ?m"
      if "\<forall>d\<in>set pending. validate_delta_structure d"
    proof -
      have "\<forall>d\<in>set (take (nat ?m) pending). validate_delta_structure d"
        using that by (meson in_set_takeD)
      then have "filter validate_delta_structure (take (nat ?m) pending) = take (nat ?m) pending"
        by simp
      then show ?thesis using n l by (simp add: q(1,2,3) fs)
    qed
    have fa: "filter ?P (alerts ctx) = [fence_alert (tick_id ctx) (wall_clock_ts ctx)
                (int (length pending) - ?m)]"
      using n by (simp add: al filter_fence_later [OF ex] q(6,7) fence_alert_def)
    from n l allv fa len so show ?thesis
      by (simp add: q fs fence_alert_def)
  qed
  have under: ?thesis if n: "int (length pending) \<le> ?m"
  proof -
    have fa: "filter ?P (alerts ctx) = []"
      using n by (simp add: al filter_fence_later [OF ex])
    from n fa len so show ?thesis
      by (simp add: q fs)
  qed
  from over under show ?thesis by linarith
qed

theorem temporal_fence_witness:
  "(case run_tick (test_runtime TestZON4DKernel 1)
           [add_delta ''d0'' 0 1, add_delta ''d1'' 1 1, add_delta ''d2'' 2 1]
           None None 100 True of
      (Inr ctx, s, w) \<Rightarrow>
        \<not> breached ctx \<and> fenced ctx \<and> length (deltas_accepted ctx) = 1
        \<and> filter (\<lambda>a. level a = ''WARNING'' \<and> take 16 (message a) = ''Temporal fence: '')
             (alerts ctx)
           = [\<lparr>level = ''WARNING'', step = 2,
               message = ''Temporal fence: 2 Deltas pushed to next Tick'',
               alert_tick = 1, ts = 100\<rparr>]
    | (Inl e, s, w) \<Rightarrow> False)"
proof -
  let ?p = "[add_delta ''d0'' 0 1, add_delta ''d1'' 1 1, add_delta ''d2'' 2 1]"
  let ?rt = "test_runtime TestZON4DKernel 1"
  have "\<exists>ctx s w. run_tick ?rt ?p None None 100 True = (Inr ctx, s, w) \<and> \<not> breached ctx
          \<and> tick_id ctx = 1 \<and> wall_clock_ts ctx = 100"
    by (auto simp: run_tick_defs test_defs)
  then obtain ctx s w where r: "run_tick ?rt ?p None None 100 True = (Inr ctx, s, w)"
    and nb: "\<not> breached ctx" and t: "tick_id ctx = 1" "wall_clock_ts ctx = 100" by blast
  have m0: "0 \<le> max_deltas_per_tick ?rt" by (simp add: test_defs)
  have v: "\<forall>d\<in>set ?p. validate_delta_structure d"
    by (simp add: validate_delta_structure_def add_delta_def)
  from temporal_fence [OF r nb m0] v t have
    "fenced ctx \<and> length (deltas_accepted ctx) = 1
     \<and> filter (\<lambda>a. level a = ''WARNING'' \<and> take 16 (message a) = ''Temporal fence: '')
          (alerts ctx)
        = [\<lparr>level = ''WARNING'', step = 2,
            message = ''Temporal fence: 2 Deltas pushed to next Tick'',
            alert_tick = 1, ts = 100\<rparr>]"
    by (simp add: test_defs str_int_def str_nat.simps)
  with r nb show ?thesis by simp
qed

subsection \<open>Temporal ordering\<close>







subsection \<open>Rollback as run\_tick performs it\<close>

lemma committed_runtime_eq:
  "committed_runtime =
     (test_runtime TestZON4DKernel 1024)
       \<lparr>tick_counter := 1, current_snapshot := Some snap_1, last_wall_clock_ts := Some 100\<rparr>"
  by (simp add: committed_runtime_def snap_1_def run_tick_defs test_defs)

lemma bounded_committed_eq:
  "bounded_committed =
     bounded_runtime
       \<lparr>tick_counter := 1, current_snapshot := Some snap_1, last_wall_clock_ts := Some 100\<rparr>"
  by (simp add: bounded_committed_def bounded_runtime_def BoundedKernel_def snap_1_def
      run_tick_defs test_defs)

lemma snap_1_not_anchor: "Some snap_1 \<noteq> Some immutable_anchor"
  by (simp add: snap_1_def immutable_anchor_def)


lemma rollback_call_rolls_back:
  assumes rc: "rollback_call self pending dviews dtime now w = Some (s, c, v)"
  shows "store_timeline_hash_ok (anchor_store self) v = (Inl e, v1) \<Longrightarrow>
           rollback s c v = (Some e, c, s, v1)"
    and "store_timeline_hash_ok (anchor_store self) v = (Inr ok, v1) \<Longrightarrow>
         load_last_immutable_anchor (anchor_store self) v1 = (Inl e, v2) \<Longrightarrow>
           rollback s c v = (Some e, c\<lparr>timeline_hash_ok := ok\<rparr>, s, v2)"
    and "store_timeline_hash_ok (anchor_store self) v = (Inr ok, v1) \<Longrightarrow>
         load_last_immutable_anchor (anchor_store self) v1 = (Inr anchor, v2) \<Longrightarrow>
           rollback s c v =
             (None,
              alert (c\<lparr>timeline_hash_ok := ok\<rparr>) ''INFO'' (breach_step_or c)
                ''Slow-path rollback: restored last immutable anchor'',
              s\<lparr>current_snapshot := anchor\<rparr>, v2)"
proof -
  note f = rollback_call_facts [OF rc]
  have st: "anchor_store s = anchor_store self" using f(4) by simp
  note sl = rollback_slow [OF f(1), of s v]
  show "store_timeline_hash_ok (anchor_store self) v = (Inl e, v1) \<Longrightarrow>
           rollback s c v = (Some e, c, s, v1)"
    by (simp add: sl st)
  show "store_timeline_hash_ok (anchor_store self) v = (Inr ok, v1) \<Longrightarrow>
         load_last_immutable_anchor (anchor_store self) v1 = (Inl e, v2) \<Longrightarrow>
           rollback s c v = (Some e, c\<lparr>timeline_hash_ok := ok\<rparr>, s, v2)"
    by (simp add: sl st restore_anchor_def)
  show "store_timeline_hash_ok (anchor_store self) v = (Inr ok, v1) \<Longrightarrow>
         load_last_immutable_anchor (anchor_store self) v1 = (Inr anchor, v2) \<Longrightarrow>
           rollback s c v =
             (None,
              alert (c\<lparr>timeline_hash_ok := ok\<rparr>) ''INFO'' (breach_step_or c)
                ''Slow-path rollback: restored last immutable anchor'',
              s\<lparr>current_snapshot := anchor\<rparr>, v2)"
    by (simp add: sl st restore_anchor_def)
qed

text \<open>
  C3, as the code has it. Whenever \<^verbatim>\<open>run_tick\<close> invokes \<^verbatim>\<open>_rollback\<close>
  (\<^const>\<open>rollback_call\<close> gives the runtime, the context and the world of that call; the
  runtime still holds the snapshot from before the tick), the step read from the context
  lies outside 2 to 7 or no inverse delta is recorded. So the fast path is never taken and
  the kernel is not called: the rollback asks the Anchor Store for the timeline check and
  for the last immutable anchor. If the store answers both, the rollback makes that anchor
  the current snapshot and \<^verbatim>\<open>run_tick\<close> returns the context; if the store raises in
  either call, the rollback restores nothing: the exception leaves \<^verbatim>\<open>run_tick\<close> and the
  current snapshot stays as it was.
\<close>

theorem rollback_always_slow:
  assumes rc: "rollback_call self pending dviews dtime now w = Some (s, c, v)"
  shows "(breach_step_or c < 2 \<or> 7 < breach_step_or c \<or> inverse_deltas c = [])
       \<and> s = self\<lparr>tick_counter := tick_counter self + 1, last_wall_clock_ts := Some now\<rparr>
       \<and> (\<forall>ok v1 anchor v2.
             store_timeline_hash_ok (anchor_store self) v = (Inr ok, v1)
             \<and> load_last_immutable_anchor (anchor_store self) v1 = (Inr anchor, v2) \<longrightarrow>
             rollback s c v =
               (None,
                alert (c\<lparr>timeline_hash_ok := ok\<rparr>) ''INFO'' (breach_step_or c)
                  ''Slow-path rollback: restored last immutable anchor'',
                s\<lparr>current_snapshot := anchor\<rparr>, v2)
             \<and> run_tick self pending dviews dtime now w =
               (Inr (alert (c\<lparr>timeline_hash_ok := ok\<rparr>) ''INFO'' (breach_step_or c)
                       ''Slow-path rollback: restored last immutable anchor''),
                s\<lparr>current_snapshot := anchor\<rparr>, v2))
       \<and> (\<forall>e v1.
             store_timeline_hash_ok (anchor_store self) v = (Inl e, v1) \<longrightarrow>
             rollback s c v = (Some e, c, s, v1)
             \<and> run_tick self pending dviews dtime now w = (Inl e, s, v1))
       \<and> (\<forall>ok v1 e v2.
             store_timeline_hash_ok (anchor_store self) v = (Inr ok, v1)
             \<and> load_last_immutable_anchor (anchor_store self) v1 = (Inl e, v2) \<longrightarrow>
             rollback s c v = (Some e, c\<lparr>timeline_hash_ok := ok\<rparr>, s, v2)
             \<and> run_tick self pending dviews dtime now w = (Inl e, s, v2))"
proof -
  note f = rollback_call_facts [OF rc]
  note r = rollback_call_rolls_back [OF rc]
  note rt = run_tick_rollback_call [OF rc]
  have s: "s = self\<lparr>tick_counter := tick_counter self + 1, last_wall_clock_ts := Some now\<rparr>"
    using f(4) by (simp add: ticked_def)
  have a: "rollback s c v =
               (None,
                alert (c\<lparr>timeline_hash_ok := ok\<rparr>) ''INFO'' (breach_step_or c)
                  ''Slow-path rollback: restored last immutable anchor'',
                s\<lparr>current_snapshot := anchor\<rparr>, v2)
             \<and> run_tick self pending dviews dtime now w =
               (Inr (alert (c\<lparr>timeline_hash_ok := ok\<rparr>) ''INFO'' (breach_step_or c)
                       ''Slow-path rollback: restored last immutable anchor''),
                s\<lparr>current_snapshot := anchor\<rparr>, v2)"
    if "store_timeline_hash_ok (anchor_store self) v = (Inr ok, v1)"
      "load_last_immutable_anchor (anchor_store self) v1 = (Inr anchor, v2)"
    for ok v1 anchor v2
    using r(3) [OF that] by (simp add: rt)
  have b: "rollback s c v = (Some e, c, s, v1)
             \<and> run_tick self pending dviews dtime now w = (Inl e, s, v1)"
    if "store_timeline_hash_ok (anchor_store self) v = (Inl e, v1)" for e v1
    using r(1) [OF that] by (simp add: rt)
  have d: "rollback s c v = (Some e, c\<lparr>timeline_hash_ok := ok\<rparr>, s, v2)
             \<and> run_tick self pending dviews dtime now w = (Inl e, s, v2)"
    if "store_timeline_hash_ok (anchor_store self) v = (Inr ok, v1)"
      "load_last_immutable_anchor (anchor_store self) v1 = (Inl e, v2)"
    for ok v1 e v2
    using r(2) [OF that] by (simp add: rt)
  from f(1) s a b d show ?thesis by blast
qed

lemma rollback_call_committed:
  "\<exists>s c v. rollback_call committed_runtime [no_amount_delta ''bad'' 2] None None 101 True
             = Some (s, c, v) \<and> v = True"
  by (auto simp: committed_runtime_eq snap_1_def rollback_call_def run_tick_defs test_defs)

theorem rollback_always_slow_witness:
  "(case rollback_call committed_runtime [no_amount_delta ''bad'' 2] None None 101 True of
      Some (s, c, v) \<Rightarrow>
        current_snapshot s = Some snap_1
        \<and> fst (rollback s c v) = None
        \<and> current_snapshot (fst (snd (snd (rollback s c v)))) = Some immutable_anchor
    | None \<Rightarrow> False)"
proof -
  from rollback_call_committed obtain s c where
    rc: "rollback_call committed_runtime [no_amount_delta ''bad'' 2] None None 101 True
           = Some (s, c, True)" by auto
  have h: "store_timeline_hash_ok (anchor_store committed_runtime) True = (Inr True, True)"
    by (simp add: committed_runtime_eq test_defs)
  have l: "load_last_immutable_anchor (anchor_store committed_runtime) True
             = (Inr (Some immutable_anchor), True)"
    by (simp add: committed_runtime_eq test_runtime_def TestAnchorStore_def)
  note t = rollback_always_slow [OF rc]
  from t have s: "s = committed_runtime\<lparr>tick_counter := tick_counter committed_runtime + 1,
                        last_wall_clock_ts := Some 101\<rparr>" by blast
  then have pre: "current_snapshot s = Some snap_1" by (simp add: committed_runtime_eq)
  from t h l have "rollback s c True =
      (None,
       alert (c\<lparr>timeline_hash_ok := True\<rparr>) ''INFO'' (breach_step_or c)
         ''Slow-path rollback: restored last immutable anchor'',
       s\<lparr>current_snapshot := Some immutable_anchor\<rparr>, True)" by blast
  with rc pre show ?thesis by simp
qed

text \<open>
  Not every rollback restores the anchor. After a committed tick the current snapshot is
  \<open>snap_1\<close>; the store goes offline; a tick whose delta has no inverse breaches at step 6
  and rolls back; \<^verbatim>\<open>load_last_immutable_anchor\<close> raises, and the current snapshot is
  still \<open>snap_1\<close>, not the anchor.
\<close>

lemma rollback_call_bounded:
  "\<exists>s c v. rollback_call bounded_committed [no_amount_delta ''bad'' 2] None None 101 False
             = Some (s, c, v)"
  by (auto simp: bounded_committed_eq bounded_runtime_def BoundedKernel_def snap_1_def
      rollback_call_def run_tick_defs test_defs)

theorem rollback_always_slow_counterexample:
  "rollback_call bounded_committed [no_amount_delta ''bad'' 2] None None 101 False \<noteq> None
   \<and> fst (rollback
        (fst (the (rollback_call bounded_committed [no_amount_delta ''bad'' 2]
                     None None 101 False)))
        (fst (snd (the (rollback_call bounded_committed [no_amount_delta ''bad'' 2]
                     None None 101 False))))
        (snd (snd (the (rollback_call bounded_committed [no_amount_delta ''bad'' 2]
                     None None 101 False)))))
       = Some (OtherException ''anchor store offline'')
   \<and> current_snapshot (fst (snd (snd (rollback
        (fst (the (rollback_call bounded_committed [no_amount_delta ''bad'' 2]
                     None None 101 False)))
        (fst (snd (the (rollback_call bounded_committed [no_amount_delta ''bad'' 2]
                     None None 101 False))))
        (snd (snd (the (rollback_call bounded_committed [no_amount_delta ''bad'' 2]
                     None None 101 False))))))))
       = Some snap_1
   \<and> Some snap_1 \<noteq> Some immutable_anchor
   \<and> fst (run_tick bounded_committed [no_amount_delta ''bad'' 2] None None 101 False)
       = Inl (OtherException ''anchor store offline'')
   \<and> current_snapshot (fst (snd (run_tick bounded_committed [no_amount_delta ''bad'' 2]
                                   None None 101 False)))
       = Some snap_1"
proof -
  from rollback_call_bounded obtain s c v where
    rc: "rollback_call bounded_committed [no_amount_delta ''bad'' 2] None None 101 False
           = Some (s, c, v)" by auto
  have rb: "fst (rollback s c v) = Some (OtherException ''anchor store offline'')
          \<and> current_snapshot (fst (snd (snd (rollback s c v)))) = Some snap_1"
    using rc
    by (auto simp: bounded_committed_eq bounded_runtime_def BoundedKernel_def snap_1_def
        rollback_call_def run_tick_defs test_defs)
  have rt: "fst (run_tick bounded_committed [no_amount_delta ''bad'' 2] None None 101 False)
       = Inl (OtherException ''anchor store offline'')
   \<and> current_snapshot (fst (snd (run_tick bounded_committed [no_amount_delta ''bad'' 2]
                                   None None 101 False)))
       = Some snap_1"
    by (simp add: bounded_committed_eq bounded_runtime_def BoundedKernel_def snap_1_def
        run_tick_defs test_defs)
  from rc rb rt snap_1_not_anchor show ?thesis by simp
qed

subsection \<open>Commit\<close>

text \<open>
  C2, as the code has it. When \<^verbatim>\<open>run_tick\<close> returns a context that is not breached,
  no rollback ran, the tick has an output snapshot and that snapshot is the current one.
  When it returns a breached context, the rollback ran, and the current snapshot is the
  value that \<^verbatim>\<open>load_last_immutable_anchor\<close> returned in that rollback, right after its
  timeline check.
\<close>

theorem commit_or_restore:
  assumes rt: "run_tick self pending dviews dtime now w = (Inr ctx, self', w')"
  shows "(\<not> breached ctx \<longrightarrow>
            rollback_call self pending dviews dtime now w = None
            \<and> snapshot_out ctx \<noteq> None \<and> current_snapshot self' = snapshot_out ctx)
       \<and> (breached ctx \<longrightarrow>
            (\<exists>s c v ok v1.
               rollback_call self pending dviews dtime now w = Some (s, c, v)
               \<and> store_timeline_hash_ok (anchor_store self) v = (Inr ok, v1)
               \<and> load_last_immutable_anchor (anchor_store self) v1
                   = (Inr (current_snapshot self'), w')))"
proof (cases "rollback_call self pending dviews dtime now w")
  case None
  from rollback_call_None(2) [OF None rt] have nb: "\<not> breached ctx" .
  with run_tick_Inr(2) [OF rt] None show ?thesis by simp
next
  case (Some a)
  obtain s c v where a: "a = (s, c, v)" by (metis prod_cases3)
  with Some have rc: "rollback_call self pending dviews dtime now w = Some (s, c, v)" by simp
  from run_tick_rolled_back [OF rc rt] obtain ok stp m v1 where
    h: "store_timeline_hash_ok (anchor_store self) v = (Inr ok, v1)"
    and c: "ctx = alert (c\<lparr>timeline_hash_ok := ok\<rparr>) ''INFO'' stp m"
    and l: "load_last_immutable_anchor (anchor_store self) v1
              = (Inr (current_snapshot self'), w')" by blast
  from c rollback_call_facts(2) [OF rc] have "breached ctx" by (simp add: alert_def)
  with rc h l show ?thesis by blast
qed

theorem commit_or_restore_witness:
  "(case run_tick (test_runtime TestZON4DKernel 1024) [add_delta ''add5'' 1 5]
           None None 100 True of
      (Inr ctx, s, w) \<Rightarrow>
        \<not> breached ctx \<and> snapshot_out ctx \<noteq> None \<and> current_snapshot s = snapshot_out ctx
    | (Inl e, s, w) \<Rightarrow> False)
   \<and> (case run_tick committed_runtime [no_amount_delta ''bad'' 2] None None 101 True of
      (Inr ctx, s, w) \<Rightarrow> breached ctx \<and> current_snapshot s = Some immutable_anchor
    | (Inl e, s, w) \<Rightarrow> False)"
proof -
  let ?r1 = "run_tick (test_runtime TestZON4DKernel 1024) [add_delta ''add5'' 1 5]
           None None 100 True"
  let ?r2 = "run_tick committed_runtime [no_amount_delta ''bad'' 2] None None 101 True"
  have "\<exists>ctx s w. ?r1 = (Inr ctx, s, w) \<and> \<not> breached ctx"
    by (auto simp: run_tick_defs test_defs)
  then obtain c1 s1 w1 where r1: "?r1 = (Inr c1, s1, w1)" and nb: "\<not> breached c1" by auto
  have "\<exists>ctx s w. ?r2 = (Inr ctx, s, w) \<and> breached ctx"
    by (auto simp: committed_runtime_eq snap_1_def run_tick_defs test_defs)
  then obtain c2 s2 w2 where r2: "?r2 = (Inr c2, s2, w2)" and b: "breached c2" by auto
  from commit_or_restore [OF r1] nb
  have a1: "snapshot_out c1 \<noteq> None \<and> current_snapshot s1 = snapshot_out c1" by blast
  from commit_or_restore [OF r2] b obtain v1 where
    "load_last_immutable_anchor (anchor_store committed_runtime) v1
       = (Inr (current_snapshot s2), w2)" by blast
  then have a2: "current_snapshot s2 = Some immutable_anchor"
    by (simp add: committed_runtime_eq test_runtime_def TestAnchorStore_def)
  from r1 r2 nb b a1 a2 show ?thesis by simp
qed

text \<open>
  A breached tick does change the current snapshot: after a committed tick the current
  snapshot is \<^verbatim>\<open>snap_1\<close>; a second tick whose delta has no inverse breaches, and the
  rollback replaces \<^verbatim>\<open>snap_1\<close> by the anchor \<^verbatim>\<open>snap_0\<close>.
\<close>

theorem commit_atomicity_counterexample:
  "snap_id (the (current_snapshot committed_runtime)) = ''snap_1''
   \<and> \<not> isl (fst (run_tick committed_runtime [(add_delta ''bad'' 2 0)\<lparr>payload := None\<rparr>]
                    None None 101 True))
   \<and> breached (projr (fst (run_tick committed_runtime
                    [(add_delta ''bad'' 2 0)\<lparr>payload := None\<rparr>] None None 101 True)))
   \<and> current_snapshot (fst (snd (run_tick committed_runtime
                    [(add_delta ''bad'' 2 0)\<lparr>payload := None\<rparr>] None None 101 True)))
       = Some immutable_anchor
   \<and> current_snapshot (fst (snd (run_tick committed_runtime
                    [(add_delta ''bad'' 2 0)\<lparr>payload := None\<rparr>] None None 101 True)))
       \<noteq> current_snapshot committed_runtime"
  by (simp add: committed_runtime_def run_tick_defs test_defs)

subsection \<open>Validation failure\<close>

lemma apply_loop_None_ctx:
  "apply_loop k ds c st invs w = (None, c', st', invs', w') \<Longrightarrow>
   apply_loop k ds c2 st invs w = (None, c2, st', invs', w')"
proof (induction ds arbitrary: st invs w)
  case Nil
  then show ?case by simp
next
  case (Cons d ds)
  then show ?case
    by (auto split: prod.splits sum.splits option.splits)
qed

text \<open>
  C5, for an Anchor Store that answers the rollback. Let the timeline check of step 1
  pass and the runtime have a current snapshot. If the kernel applies all accepted deltas
  and then \<^verbatim>\<open>validate_state\<close> returns false, and the Anchor Store answers the two calls
  of the rollback, then \<^verbatim>\<open>run_tick\<close> returns a context with \<^verbatim>\<open>breached\<close> set and
  \<^verbatim>\<open>breach_step = 6\<close>, and the current snapshot is the anchor the store returned,
  whatever state \<open>st\<close> the mutation had computed.
\<close>

theorem validation_failure_restores_anchor:
  assumes h1: "store_timeline_hash_ok (anchor_store self) w = (Inr True, w1)"
    and cs: "current_snapshot self = Some snap"
    and loop: "apply_loop (zon4d self)
                 (sort_key sort_key_delta
                    (map normalized_delta (filter validate_delta_structure
                       (fence_survivors (max_deltas_per_tick self) pending))))
                 c0 (zon4d_state snap) [] w1 = (None, c0', st, invs, w2)"
    and v: "validate_state (zon4d self) st w2 = (Inr False, w3)"
    and h2: "store_timeline_hash_ok (anchor_store self) w3 = (Inr ok, w4)"
    and a: "load_last_immutable_anchor (anchor_store self) w4 = (Inr anchor, w5)"
  shows "\<exists>ctx self'. run_tick self pending dviews dtime now w = (Inr ctx, self', w5)
           \<and> breached ctx \<and> breach_step ctx = Some 6
           \<and> current_snapshot self' = anchor
           \<and> snapshot_out ctx = None \<and> inverse_deltas ctx = []"
proof -
  let ?s1 = "ticked self now"
  let ?c1 = "init_ctx self pending dviews dtime now True"
  let ?c4 = "ordered_ctx ?s1 ?c1"
  have nb1: "\<not> breached ?c1" by (simp add: init_ctx_fields)
  have nb4: "\<not> breached ?c4" by (simp add: ordered_ctx_kept init_ctx_fields)
  have acc: "deltas_accepted ?c4 = sort_key sort_key_delta
                    (map normalized_delta (filter validate_delta_structure
                       (fence_survivors (max_deltas_per_tick self) pending)))"
    by (simp add: ordered_ctx_eq [OF nb1] Let_def init_ctx_fields)
  have sin: "snapshot_in ?c4 = Some snap" by (simp add: ordered_ctx_kept init_ctx_fields cs)
  note l4 = apply_loop_None_ctx [OF loop, of ?c4]
  let ?cb = "breach ?c4 6 ''ZON4D state validation failed''"
  let ?m = "''ZON4D validation failed after mutations''"
  have s6: "step6_apply_deltas ?s1 ?c4 w1 = (Some (RuntimeError ?m), ?cb, w3)"
    using nb4 sin l4 v by (simp add: step6_apply_deltas_def acc)
  have tb: "tick_body ?s1 ?c1 w1 = (Some (RuntimeError ?m), ?cb, ?s1, w3)"
    by (simp add: tick_body_eq s6)
  let ?cm = "mark_breach ?cb ?m"
  have inv: "inverse_deltas ?cm = []"
    by (simp add: breach_def alert_def ordered_ctx_kept init_ctx_fields)
  have so: "snapshot_out ?cm = None"
    by (simp add: breach_def alert_def ordered_ctx_kept init_ctx_fields)
  have bs: "breach_step ?cm = Some 6" by (simp add: breach_def alert_def)
  let ?cf = "alert (?cm\<lparr>timeline_hash_ok := ok\<rparr>) ''INFO'' (breach_step_or ?cm)
               ''Slow-path rollback: restored last immutable anchor''"
  have rb: "rollback ?s1 ?cm w3 = (None, ?cf, ?s1\<lparr>current_snapshot := anchor\<rparr>, w5)"
    using inv h2 a by (simp add: rollback_slow restore_anchor_def)
  have "run_tick self pending dviews dtime now w
          = (Inr ?cf, ?s1\<lparr>current_snapshot := anchor\<rparr>, w5)"
    by (simp add: run_tick_def step1_init_eq h1 tb rb)
  moreover have "breached ?cf" "breach_step ?cf = Some 6" "snapshot_out ?cf = None"
    "inverse_deltas ?cf = []"
    using inv so bs by (simp_all add: alert_def)
  ultimately show ?thesis by auto
qed

theorem validation_failure_restores_anchor_witness:
  "(case run_tick (test_runtime BreachKernel 1024) [add_delta ''bad'' 1 99]
           None None 100 True of
      (Inr ctx, s, w) \<Rightarrow>
        breached ctx \<and> breach_step ctx = Some 6
        \<and> current_snapshot s = Some immutable_anchor
    | (Inl e, s, w) \<Rightarrow> False)"
proof -
  let ?rt = "test_runtime BreachKernel 1024"
  let ?p = "[add_delta ''bad'' 1 99]"
  let ?c0 = "init_ctx ?rt [] None None 0 True"
  have h1: "store_timeline_hash_ok (anchor_store ?rt) True = (Inr True, True)"
    by (simp add: test_defs)
  have cs: "current_snapshot ?rt = Some immutable_anchor"
    by (simp add: test_runtime_def)
  have "\<exists>c0' st invs. apply_loop (zon4d ?rt)
                 (sort_key sort_key_delta
                    (map normalized_delta (filter validate_delta_structure
                       (fence_survivors (max_deltas_per_tick ?rt) ?p))))
                 ?c0 (zon4d_state immutable_anchor) [] True = (None, c0', st, invs, True)"
    by (simp add: test_defs fence_survivors_def validate_delta_structure_def
        normalized_delta_def)
  then obtain c0' st invs where
    loop: "apply_loop (zon4d ?rt)
                 (sort_key sort_key_delta
                    (map normalized_delta (filter validate_delta_structure
                       (fence_survivors (max_deltas_per_tick ?rt) ?p))))
                 ?c0 (zon4d_state immutable_anchor) [] True = (None, c0', st, invs, True)"
    by auto
  have v: "validate_state (zon4d ?rt) st True = (Inr False, True)"
    by (simp add: test_defs)
  have h2: "store_timeline_hash_ok (anchor_store ?rt) True = (Inr True, True)"
    by (simp add: test_defs)
  have a: "load_last_immutable_anchor (anchor_store ?rt) True
             = (Inr (Some immutable_anchor), True)"
    by (simp add: test_runtime_def TestAnchorStore_def)
  from validation_failure_restores_anchor [OF h1 cs loop v h2 a, of None None 100]
  show ?thesis by auto
qed

text \<open>
  Without an answering store the claim fails. The current snapshot is \<open>snap_1\<close>, the
  store is offline, and the tick adds 99: the kernel applies the delta, validation of the
  state \<open>{value: 104}\<close> returns false and step 6 raises; the rollback's
  \<^verbatim>\<open>load_last_immutable_anchor\<close> raises, so \<^verbatim>\<open>run_tick\<close> returns no context, and the
  current snapshot is still \<open>snap_1\<close>.
\<close>

theorem validation_failure_counterexample:
  "fst (validate_state (zon4d bounded_committed) [''value'' \<mapsto> 104] False) = Inr False
   \<and> fst (step6_apply_deltas (ticked bounded_committed 101)
            (ordered_ctx (ticked bounded_committed 101)
               (init_ctx bounded_committed [add_delta ''add99'' 2 99] None None 101 True))
            False)
       = Some (RuntimeError ''ZON4D validation failed after mutations'')
   \<and> fst (run_tick bounded_committed [add_delta ''add99'' 2 99] None None 101 False)
       = Inl (OtherException ''anchor store offline'')
   \<and> current_snapshot (fst (snd (run_tick bounded_committed [add_delta ''add99'' 2 99]
                                   None None 101 False)))
       = Some snap_1
   \<and> Some snap_1 \<noteq> Some immutable_anchor"
  by (simp add: bounded_committed_eq bounded_runtime_def BoundedKernel_def snap_1_def
      ordered_ctx_def init_ctx_def ticked_def run_tick_defs test_defs)

subsection \<open>The rollback decision rule\<close>

lemma apply_all_pure:
  assumes "\<And>st d w. apply_delta_in_place k st d w = (Inr (f st d), w)"
  shows "apply_all k ds st w = (Inr (foldl f st ds), w)"
  by (induction ds arbitrary: st) (simp_all add: assms)

lemma snapshot_with_state:
  "\<lparr>snap_id = snap_id cur, tick = tick cur, zon4d_state = state, hash32 = hash32 cur,
    anchor_type = anchor_type cur\<rparr> = cur\<lparr>zon4d_state := state\<rparr>"
  by (cases cur) simp

text \<open>
  C4, as the code has it. \<^verbatim>\<open>_rollback\<close> first asks the Anchor Store for the timeline
  check. It attempts the fast path only if the check is positive, the recorded breach step
  is within 2 to 7 and at least one inverse delta is recorded. The fast path takes the
  state of the current snapshot, has the kernel apply the recorded inverse deltas in
  reverse order (for a kernel that applies a delta as a function \<open>f\<close>, the result is the
  fold of \<open>f\<close> over the inverse deltas from the last to the first) and validates the result:
  if valid, the current snapshot becomes the current snapshot with that state; if not, a
  CRITICAL alert is recorded and the slow path is taken. The slow path asks the Anchor
  Store for the last immutable anchor: if the store returns one, it becomes the current
  snapshot; if the store raises, the exception leaves the rollback and the current
  snapshot is unchanged.
\<close>

theorem rollback_decision:
  fixes self :: "('p, 'm, 'st, 'v, 't, 'w) EnginalityRuntime"
    and ctx :: "('p, 'm, 'st, 'v, 't) TickContext"
  assumes h: "store_timeline_hash_ok (anchor_store self) w = (Inr ok, w1)"
  shows "(\<not> (ok \<and> (\<exists>n. breach_step ctx = Some n \<and> 2 \<le> n \<and> n \<le> 7)
             \<and> inverse_deltas ctx \<noteq> [])
          \<and> load_last_immutable_anchor (anchor_store self) w1 = (Inr anchor, w2) \<longrightarrow>
            rollback self ctx w =
              (None,
               alert (ctx\<lparr>timeline_hash_ok := ok\<rparr>) ''INFO'' (breach_step_or ctx)
                 ''Slow-path rollback: restored last immutable anchor'',
               self\<lparr>current_snapshot := anchor\<rparr>, w2))
       \<and> (\<not> (ok \<and> (\<exists>n. breach_step ctx = Some n \<and> 2 \<le> n \<and> n \<le> 7)
             \<and> inverse_deltas ctx \<noteq> [])
          \<and> load_last_immutable_anchor (anchor_store self) w1 = (Inl e, w2) \<longrightarrow>
            rollback self ctx w = (Some e, ctx\<lparr>timeline_hash_ok := ok\<rparr>, self, w2))
       \<and> (ok \<and> (\<exists>n. breach_step ctx = Some n \<and> 2 \<le> n \<and> n \<le> 7)
             \<and> inverse_deltas ctx \<noteq> []
          \<and> current_snapshot self = Some cur
          \<and> apply_all (zon4d self) (rev (inverse_deltas ctx)) (zon4d_state cur) w1
               = (Inr state, w3)
          \<and> validate_state (zon4d self) state w3 = (Inr True, w4) \<longrightarrow>
            rollback self ctx w =
              (None,
               alert (ctx\<lparr>timeline_hash_ok := ok\<rparr>) ''INFO'' (breach_step_or ctx)
                 ''Fast-path rollback applied via inverse Deltas'',
               self\<lparr>current_snapshot := Some (cur\<lparr>zon4d_state := state\<rparr>)\<rparr>, w4))
       \<and> (ok \<and> (\<exists>n. breach_step ctx = Some n \<and> 2 \<le> n \<and> n \<le> 7)
             \<and> inverse_deltas ctx \<noteq> []
          \<and> current_snapshot self = Some cur
          \<and> apply_all (zon4d self) (rev (inverse_deltas ctx)) (zon4d_state cur) w1
               = (Inr state, w3)
          \<and> validate_state (zon4d self) state w3 = (Inr False, w4)
          \<and> load_last_immutable_anchor (anchor_store self) w4 = (Inr anchor, w5) \<longrightarrow>
            rollback self ctx w =
              (None,
               alert (alert (ctx\<lparr>timeline_hash_ok := ok\<rparr>) ''CRITICAL'' (breach_step_or ctx)
                        ''Fast-path rollback validation failed; falling back to anchor restore'')
                 ''INFO'' (breach_step_or ctx)
                 ''Slow-path rollback: restored last immutable anchor'',
               self\<lparr>current_snapshot := anchor\<rparr>, w5))
       \<and> (ok \<and> (\<exists>n. breach_step ctx = Some n \<and> 2 \<le> n \<and> n \<le> 7)
             \<and> inverse_deltas ctx \<noteq> []
          \<and> current_snapshot self = Some cur
          \<and> apply_all (zon4d self) (rev (inverse_deltas ctx)) (zon4d_state cur) w1
               = (Inr state, w3)
          \<and> validate_state (zon4d self) state w3 = (Inr False, w4)
          \<and> load_last_immutable_anchor (anchor_store self) w4 = (Inl e, w5) \<longrightarrow>
            rollback self ctx w =
              (Some e,
               alert (ctx\<lparr>timeline_hash_ok := ok\<rparr>) ''CRITICAL'' (breach_step_or ctx)
                 ''Fast-path rollback validation failed; falling back to anchor restore'',
               self, w5))
       \<and> ((\<forall>st d u. apply_delta_in_place (zon4d self) st d u = (Inr (f st d), u)) \<longrightarrow>
            apply_all (zon4d self) (rev (inverse_deltas ctx)) st0 v
              = (Inr (foldr (\<lambda>d s. f s d) (inverse_deltas ctx) st0), v))"
proof -
  let ?fast = "ok \<and> (\<exists>n. breach_step ctx = Some n \<and> 2 \<le> n \<and> n \<le> 7)
             \<and> inverse_deltas ctx \<noteq> []"
  have cond: "?fast \<longleftrightarrow> ok \<and> 2 \<le> breach_step_or ctx \<and> breach_step_or ctx \<le> 7
                \<and> length (inverse_deltas ctx) > 0"
    by (auto simp: breach_step_or_def split: option.splits)
  have slow: "rollback self ctx w =
              restore_anchor self (ctx\<lparr>timeline_hash_ok := ok\<rparr>) (breach_step_or ctx) w1"
    if "\<not> ?fast"
    using that [unfolded cond] h by (auto simp: rollback_def Let_def)
  have c1: "rollback self ctx w =
              (None,
               alert (ctx\<lparr>timeline_hash_ok := ok\<rparr>) ''INFO'' (breach_step_or ctx)
                 ''Slow-path rollback: restored last immutable anchor'',
               self\<lparr>current_snapshot := anchor\<rparr>, w2)"
    if "\<not> ?fast" "load_last_immutable_anchor (anchor_store self) w1 = (Inr anchor, w2)"
    using slow [OF that(1)] that(2) by (simp add: restore_anchor_def)
  have c2: "rollback self ctx w = (Some e, ctx\<lparr>timeline_hash_ok := ok\<rparr>, self, w2)"
    if "\<not> ?fast" "load_last_immutable_anchor (anchor_store self) w1 = (Inl e, w2)"
    using slow [OF that(1)] that(2) by (simp add: restore_anchor_def)
  have c3: "rollback self ctx w =
              (None,
               alert (ctx\<lparr>timeline_hash_ok := ok\<rparr>) ''INFO'' (breach_step_or ctx)
                 ''Fast-path rollback applied via inverse Deltas'',
               self\<lparr>current_snapshot := Some (cur\<lparr>zon4d_state := state\<rparr>)\<rparr>, w4)"
    if "?fast" "current_snapshot self = Some cur"
      "apply_all (zon4d self) (rev (inverse_deltas ctx)) (zon4d_state cur) w1 = (Inr state, w3)"
      "validate_state (zon4d self) state w3 = (Inr True, w4)"
    using that(1) [unfolded cond] that(2-) h
    by (simp add: rollback_def Let_def snapshot_with_state)
  have c4: "rollback self ctx w =
              (None,
               alert (alert (ctx\<lparr>timeline_hash_ok := ok\<rparr>) ''CRITICAL'' (breach_step_or ctx)
                        ''Fast-path rollback validation failed; falling back to anchor restore'')
                 ''INFO'' (breach_step_or ctx)
                 ''Slow-path rollback: restored last immutable anchor'',
               self\<lparr>current_snapshot := anchor\<rparr>, w5)"
    if "?fast" "current_snapshot self = Some cur"
      "apply_all (zon4d self) (rev (inverse_deltas ctx)) (zon4d_state cur) w1 = (Inr state, w3)"
      "validate_state (zon4d self) state w3 = (Inr False, w4)"
      "load_last_immutable_anchor (anchor_store self) w4 = (Inr anchor, w5)"
    using that(1) [unfolded cond] that(2-) h
    by (simp add: rollback_def Let_def restore_anchor_def)
  have c5: "rollback self ctx w =
              (Some e,
               alert (ctx\<lparr>timeline_hash_ok := ok\<rparr>) ''CRITICAL'' (breach_step_or ctx)
                 ''Fast-path rollback validation failed; falling back to anchor restore'',
               self, w5)"
    if "?fast" "current_snapshot self = Some cur"
      "apply_all (zon4d self) (rev (inverse_deltas ctx)) (zon4d_state cur) w1 = (Inr state, w3)"
      "validate_state (zon4d self) state w3 = (Inr False, w4)"
      "load_last_immutable_anchor (anchor_store self) w4 = (Inl e, w5)"
    using that(1) [unfolded cond] that(2-) h
    by (simp add: rollback_def Let_def restore_anchor_def)
  have c6: "apply_all (zon4d self) (rev (inverse_deltas ctx)) st0 v
               = (Inr (foldr (\<lambda>d s. f s d) (inverse_deltas ctx) st0), v)"
    if "\<forall>st d u. apply_delta_in_place (zon4d self) st d u = (Inr (f st d), u)"
  proof -
    from that have "apply_all (zon4d self) ds st0 v = (Inr (foldl f st0 ds), v)" for ds
      by (intro apply_all_pure) simp
    then show ?thesis by (simp add: foldl_conv_foldr)
  qed
  show ?thesis
  proof (intro conjI impI)
    show "rollback self ctx w =
              (None,
               alert (ctx\<lparr>timeline_hash_ok := ok\<rparr>) ''INFO'' (breach_step_or ctx)
                 ''Slow-path rollback: restored last immutable anchor'',
               self\<lparr>current_snapshot := anchor\<rparr>, w2)"
      if "\<not> ?fast \<and> load_last_immutable_anchor (anchor_store self) w1 = (Inr anchor, w2)"
      using c1 that by blast
    show "rollback self ctx w = (Some e, ctx\<lparr>timeline_hash_ok := ok\<rparr>, self, w2)"
      if "\<not> ?fast \<and> load_last_immutable_anchor (anchor_store self) w1 = (Inl e, w2)"
      using c2 that by blast
    show "rollback self ctx w =
              (None,
               alert (ctx\<lparr>timeline_hash_ok := ok\<rparr>) ''INFO'' (breach_step_or ctx)
                 ''Fast-path rollback applied via inverse Deltas'',
               self\<lparr>current_snapshot := Some (cur\<lparr>zon4d_state := state\<rparr>)\<rparr>, w4)"
      if "ok \<and> (\<exists>n. breach_step ctx = Some n \<and> 2 \<le> n \<and> n \<le> 7)
             \<and> inverse_deltas ctx \<noteq> []
          \<and> current_snapshot self = Some cur
          \<and> apply_all (zon4d self) (rev (inverse_deltas ctx)) (zon4d_state cur) w1
               = (Inr state, w3)
          \<and> validate_state (zon4d self) state w3 = (Inr True, w4)"
      using c3 that by blast
    show "rollback self ctx w =
              (None,
               alert (alert (ctx\<lparr>timeline_hash_ok := ok\<rparr>) ''CRITICAL'' (breach_step_or ctx)
                        ''Fast-path rollback validation failed; falling back to anchor restore'')
                 ''INFO'' (breach_step_or ctx)
                 ''Slow-path rollback: restored last immutable anchor'',
               self\<lparr>current_snapshot := anchor\<rparr>, w5)"
      if "ok \<and> (\<exists>n. breach_step ctx = Some n \<and> 2 \<le> n \<and> n \<le> 7)
             \<and> inverse_deltas ctx \<noteq> []
          \<and> current_snapshot self = Some cur
          \<and> apply_all (zon4d self) (rev (inverse_deltas ctx)) (zon4d_state cur) w1
               = (Inr state, w3)
          \<and> validate_state (zon4d self) state w3 = (Inr False, w4)
          \<and> load_last_immutable_anchor (anchor_store self) w4 = (Inr anchor, w5)"
      using c4 that by blast
    show "rollback self ctx w =
              (Some e,
               alert (ctx\<lparr>timeline_hash_ok := ok\<rparr>) ''CRITICAL'' (breach_step_or ctx)
                 ''Fast-path rollback validation failed; falling back to anchor restore'',
               self, w5)"
      if "ok \<and> (\<exists>n. breach_step ctx = Some n \<and> 2 \<le> n \<and> n \<le> 7)
             \<and> inverse_deltas ctx \<noteq> []
          \<and> current_snapshot self = Some cur
          \<and> apply_all (zon4d self) (rev (inverse_deltas ctx)) (zon4d_state cur) w1
               = (Inr state, w3)
          \<and> validate_state (zon4d self) state w3 = (Inr False, w4)
          \<and> load_last_immutable_anchor (anchor_store self) w4 = (Inl e, w5)"
      using c5 that by blast
    show "apply_all (zon4d self) (rev (inverse_deltas ctx)) st0 v
               = (Inr (foldr (\<lambda>d s. f s d) (inverse_deltas ctx) st0), v)"
      if "\<forall>st d u. apply_delta_in_place (zon4d self) st d u = (Inr (f st d), u)"
      using c6 that by blast
  qed
qed

lemma breached_ctx_fields [simp]:
  "breach_step (breached_ctx n invs) = Some n"
  "inverse_deltas (breached_ctx n invs) = invs"
  by (simp_all add: breached_ctx_def)

theorem rollback_decision_witness:
  "current_snapshot (fst (snd (snd (rollback
       ((test_runtime SetKernel 1024)\<lparr>current_snapshot := Some snap_1\<rparr>)
       (breached_ctx 6 [add_delta ''inv_a'' 1 1, add_delta ''inv_b'' 2 2]) True))))
     = Some (snap_1\<lparr>zon4d_state := [''value'' \<mapsto> 1]\<rparr>)
   \<and> current_snapshot (fst (snd (snd (rollback
       ((test_runtime SetKernel 1024)\<lparr>current_snapshot := Some snap_1\<rparr>)
       (breached_ctx 1 [add_delta ''inv_a'' 1 1, add_delta ''inv_b'' 2 2]) True))))
     = Some immutable_anchor
   \<and> current_snapshot (fst (snd (snd (rollback
       ((test_runtime BreachKernel 1024)\<lparr>current_snapshot := Some snap_1\<rparr>)
       (breached_ctx 6 [add_delta ''inv_a'' 1 1, add_delta ''inv_b'' 2 2]) True))))
     = Some immutable_anchor"
proof -
  let ?invs = "[add_delta ''inv_a'' 1 1, add_delta ''inv_b'' 2 2]"
  let ?s = "(test_runtime SetKernel 1024)\<lparr>current_snapshot := Some snap_1\<rparr>"
  let ?sb = "(test_runtime BreachKernel 1024)\<lparr>current_snapshot := Some snap_1\<rparr>"
  let ?f = "\<lambda>(st :: string \<rightharpoonup> int) (d :: (int option, unit) Delta).
              case payload d of None \<Rightarrow> st | Some a \<Rightarrow> st(''value'' \<mapsto> a)"
  have h: "store_timeline_hash_ok (anchor_store ?s) True = (Inr True, True)"
    and hb: "store_timeline_hash_ok (anchor_store ?sb) True = (Inr True, True)"
    by (simp_all add: test_defs)
  have la: "load_last_immutable_anchor (anchor_store ?s) True
              = (Inr (Some immutable_anchor), True)"
    and lab: "load_last_immutable_anchor (anchor_store ?sb) True
                = (Inr (Some immutable_anchor), True)"
    by (simp_all add: test_runtime_def TestAnchorStore_def)
  have fast: "True \<and> (\<exists>n. breach_step (breached_ctx 6 ?invs) = Some n \<and> 2 \<le> n \<and> n \<le> 7)
                \<and> inverse_deltas (breached_ctx 6 ?invs) \<noteq> []" by simp
  have nofast: "\<not> (True \<and> (\<exists>n. breach_step (breached_ctx 1 ?invs) = Some n \<and> 2 \<le> n \<and> n \<le> 7)
                \<and> inverse_deltas (breached_ctx 1 ?invs) \<noteq> [])" by simp
  \<comment> \<open>the fast path: the inverse deltas are applied from the last to the first\<close>
  note t = rollback_decision [where ctx = "breached_ctx 6 ?invs", OF h]
  have pure: "\<forall>st d u. apply_delta_in_place (zon4d ?s) st d u = (Inr (?f st d), u)"
    by (simp add: test_runtime_def SetKernel_def TestZON4DKernel_def)
  have cs: "current_snapshot ?s = Some snap_1" by simp
  from t [where f = ?f and ?st0.0 = "zon4d_state snap_1" and v = True] pure
  have "apply_all (zon4d ?s) (rev (inverse_deltas (breached_ctx 6 ?invs))) (zon4d_state snap_1)
          True
        = (Inr (foldr (\<lambda>d s. ?f s d) (inverse_deltas (breached_ctx 6 ?invs))
                  (zon4d_state snap_1)), True)"
    by blast
  then have ap: "apply_all (zon4d ?s) (rev (inverse_deltas (breached_ctx 6 ?invs)))
                   (zon4d_state snap_1) True = (Inr [''value'' \<mapsto> 1], True)"
    by (simp add: add_delta_def snap_1_def)
  have v: "validate_state (zon4d ?s) [''value'' \<mapsto> 1] True = (Inr True, True)"
    by (simp add: test_runtime_def SetKernel_def TestZON4DKernel_def)
  from t [where cur = snap_1 and state = "[''value'' \<mapsto> 1]" and ?w3.0 = True
      and ?w4.0 = True] fast cs ap v
  have r1: "current_snapshot (fst (snd (snd (rollback ?s (breached_ctx 6 ?invs) True))))
      = Some (snap_1\<lparr>zon4d_state := [''value'' \<mapsto> 1]\<rparr>)"
    by simp
  \<comment> \<open>the slow path: the breach is outside steps 2 to 7\<close>
  from rollback_decision [where ctx = "breached_ctx 1 ?invs"
      and anchor = "Some immutable_anchor" and ?w2.0 = True, OF h] nofast la
  have r2: "current_snapshot (fst (snd (snd (rollback ?s (breached_ctx 1 ?invs) True))))
      = Some immutable_anchor"
    by simp
  \<comment> \<open>the fast path abandoned: validation fails\<close>
  note tb = rollback_decision [where ctx = "breached_ctx 6 ?invs", OF hb]
  have csb: "current_snapshot ?sb = Some snap_1" by simp
  have "\<exists>st. apply_all (zon4d ?sb) (rev (inverse_deltas (breached_ctx 6 ?invs)))
                   (zon4d_state snap_1) True = (Inr st, True)"
    by (simp add: test_defs snap_1_def)
  then obtain st where apb: "apply_all (zon4d ?sb) (rev (inverse_deltas (breached_ctx 6 ?invs)))
                   (zon4d_state snap_1) True = (Inr st, True)" by blast
  have vb: "validate_state (zon4d ?sb) st True = (Inr False, True)"
    by (simp add: test_defs)
  from tb [where anchor = "Some immutable_anchor" and cur = snap_1 and state = st
      and ?w3.0 = True and ?w4.0 = True and ?w5.0 = True] fast csb apb vb lab
  have r3: "current_snapshot (fst (snd (snd (rollback ?sb (breached_ctx 6 ?invs) True))))
      = Some immutable_anchor"
    by simp
  from r1 r2 r3 show ?thesis by simp
qed

text \<open>
  The slow path does not always install the anchor: with the store offline,
  \<^verbatim>\<open>load_last_immutable_anchor\<close> raises, and the current snapshot is still \<open>snap_1\<close>.
\<close>

theorem rollback_decision_counterexample:
  "fst (rollback bounded_committed (breached_ctx 1 []) False)
     = Some (OtherException ''anchor store offline'')
   \<and> current_snapshot (fst (snd (snd (rollback bounded_committed (breached_ctx 1 []) False))))
       = Some snap_1
   \<and> Some snap_1 \<noteq> Some immutable_anchor"
  by (simp add: bounded_committed_eq bounded_runtime_def BoundedKernel_def snap_1_def
      breached_ctx_def init_ctx_def run_tick_defs test_defs)

subsection \<open>Failures of the collaborators\<close>








subsection \<open>Inverse deltas\<close>

lemma apply_all_append:
  "apply_all k (xs @ ys) st v =
     (case apply_all k xs st v of
        (Inl e, v1) \<Rightarrow> (Inl e, v1)
      | (Inr st1, v1) \<Rightarrow> apply_all k ys st1 v1)"
  by (induction xs arbitrary: st v) (simp_all split: prod.splits sum.splits)

lemma apply_loop_trace:
  "apply_loop k ds ctx st invs w = (None, ctx', st', invs', w') \<Longrightarrow>
   \<exists>ivs sts ws.
      invs' = invs @ ivs \<and> length ivs = length ds
    \<and> length sts = Suc (length ds) \<and> length ws = Suc (length ds)
    \<and> sts ! 0 = st \<and> ws ! 0 = w \<and> sts ! length ds = st' \<and> ws ! length ds = w'
    \<and> (\<forall>i<length ds. \<exists>u.
          compute_inverse_delta k (sts ! i) (ds ! i) (ws ! i) = (Inr (Some (ivs ! i)), u)
          \<and> apply_delta_in_place k (sts ! i) (ds ! i) u = (Inr (sts ! Suc i), ws ! Suc i))"
proof (induction ds arbitrary: st invs w)
  case Nil
  then have e: "invs' = invs" "st' = st" "w' = w" by simp_all
  show ?case
    by (rule exI [of _ "[]"], rule exI [of _ "[st]"], rule exI [of _ "[w]"]) (simp add: e)
next
  case (Cons d ds)
  from Cons.prems obtain iv w1 st1 w2 where
    c: "compute_inverse_delta k st d w = (Inr (Some iv), w1)"
    and a: "apply_delta_in_place k st d w1 = (Inr st1, w2)"
    and L: "apply_loop k ds ctx st1 (invs @ [iv]) w2 = (None, ctx', st', invs', w')"
    by (auto split: prod.splits sum.splits option.splits)
  from Cons.IH [OF L] obtain ivs sts ws where
    ih: "invs' = (invs @ [iv]) @ ivs" "length ivs = length ds"
      "length sts = Suc (length ds)" "length ws = Suc (length ds)"
      "sts ! 0 = st1" "ws ! 0 = w2" "sts ! length ds = st'" "ws ! length ds = w'"
    and tr: "\<forall>i<length ds. \<exists>u.
          compute_inverse_delta k (sts ! i) (ds ! i) (ws ! i) = (Inr (Some (ivs ! i)), u)
          \<and> apply_delta_in_place k (sts ! i) (ds ! i) u = (Inr (sts ! Suc i), ws ! Suc i)"
    by blast
  have st: "\<exists>u. compute_inverse_delta k ((st # sts) ! i) ((d # ds) ! i) ((w # ws) ! i)
                  = (Inr (Some ((iv # ivs) ! i)), u)
             \<and> apply_delta_in_place k ((st # sts) ! i) ((d # ds) ! i) u
                  = (Inr ((st # sts) ! Suc i), (w # ws) ! Suc i)"
    if "i < length (d # ds)" for i
  proof (cases i)
    case 0
    with c a ih(5,6) show ?thesis by simp
  next
    case (Suc j)
    with that tr show ?thesis by simp
  qed
  have "invs' = invs @ (iv # ivs) \<and> length (iv # ivs) = length (d # ds)
    \<and> length (st # sts) = Suc (length (d # ds)) \<and> length (w # ws) = Suc (length (d # ds))
    \<and> (st # sts) ! 0 = st \<and> (w # ws) ! 0 = w
    \<and> (st # sts) ! length (d # ds) = st' \<and> (w # ws) ! length (d # ds) = w'"
    using ih by simp
  with st show ?case by blast
qed

lemma compensate_chain:
  assumes "length sts = Suc (length ivs)"
    and "\<forall>i<length ivs. \<forall>v. \<exists>v'.
           apply_delta_in_place k (sts ! Suc i) (ivs ! i) v = (Inr (sts ! i), v')"
  shows "\<exists>v'. apply_all k (rev ivs) (sts ! length ivs) v = (Inr (sts ! 0), v')"
  using assms
proof (induction ivs arbitrary: sts v)
  case Nil
  then show ?case by simp
next
  case (Cons iv ivs)
  from Cons.prems(1) obtain s0 sts' where sts: "sts = s0 # sts'"
    and len: "length sts' = Suc (length ivs)"
    by (cases sts) auto
  have "\<forall>i<length ivs. \<forall>v. \<exists>v'.
           apply_delta_in_place k (sts' ! Suc i) (ivs ! i) v = (Inr (sts' ! i), v')"
  proof (intro allI impI)
    fix i v assume "i < length ivs"
    then have "Suc i < length (iv # ivs)" by simp
    with Cons.prems(2) have "\<exists>v'. apply_delta_in_place k (sts ! Suc (Suc i)) ((iv # ivs) ! Suc i) v
              = (Inr (sts ! Suc i), v')" by blast
    then show "\<exists>v'. apply_delta_in_place k (sts' ! Suc i) (ivs ! i) v = (Inr (sts' ! i), v')"
      by (simp add: sts)
  qed
  from Cons.IH [OF len this] obtain v1 where
    a: "apply_all k (rev ivs) (sts' ! length ivs) v = (Inr (sts' ! 0), v1)" by blast
  from Cons.prems(2) have "\<exists>v'. apply_delta_in_place k (sts ! Suc 0) ((iv # ivs) ! 0) v1
              = (Inr (sts ! 0), v')" by (metis length_greater_0_conv list.distinct(1))
  then obtain v2 where b: "apply_delta_in_place k (sts' ! 0) iv v1 = (Inr s0, v2)"
    by (auto simp: sts)
  from a b show ?case by (simp add: sts apply_all_append)
qed

lemma step6_done:
  assumes s6: "step6_apply_deltas self ctx w = (None, ctx', w')"
    and nb: "\<not> breached ctx"
  shows "\<exists>snap st' invs w1.
      snapshot_in ctx = Some snap
    \<and> apply_loop (zon4d self) (deltas_accepted ctx) ctx (zon4d_state snap) [] w
        = (None, ctx, st', invs, w1)
    \<and> validate_state (zon4d self) st' w1 = (Inr True, w')
    \<and> snapshot_out ctx' \<noteq> None \<and> zon4d_state (the (snapshot_out ctx')) = st'
    \<and> inverse_deltas ctx' = invs
    \<and> deltas_accepted ctx' = deltas_accepted ctx \<and> snapshot_in ctx' = snapshot_in ctx"
proof (cases "snapshot_in ctx")
  case None
  with nb s6 show ?thesis by (simp add: step6_apply_deltas_def)
next
  case (Some snap)
  obtain r1 c1 st1 invs1 w1 where
    L: "apply_loop (zon4d self) (deltas_accepted ctx) ctx (zon4d_state snap) [] w
          = (r1, c1, st1, invs1, w1)"
    by (metis prod_cases5)
  from nb Some s6 L have r1: "r1 = None"
    by (cases r1) (simp_all add: step6_apply_deltas_def)
  with apply_loop_cases [OF L] have c1: "c1 = ctx" by auto
  obtain r2 w2 where v: "validate_state (zon4d self) st1 w1 = (r2, w2)"
    by (cases "validate_state (zon4d self) st1 w1")
  from nb Some s6 L r1 v have "r2 = Inr True \<and> w2 = w'
      \<and> ctx' = c1\<lparr>snapshot_out := Some \<lparr>snap_id = alloc_snapshot_id (tick_id c1),
                                    tick = tick_id c1, zon4d_state = st1,
                                    hash32 = None, anchor_type = ''soft''\<rparr>,
                 inverse_deltas := invs1\<rparr>"
    by (cases r2) (auto simp: step6_apply_deltas_def Let_def split: if_splits)
  with Some L r1 c1 v show ?thesis by simp
qed

lemma tick_body_mutation:
  assumes nb: "\<not> breached ctx"
    and so: "snapshot_out ctx = None"
    and tb: "tick_body self ctx w = (r, ctx', self', w')"
    and out: "snapshot_out ctx' = Some sout"
  shows "\<exists>snap w1 w2.
      snapshot_in ctx = Some snap
    \<and> apply_loop (zon4d self) (deltas_accepted ctx') (ordered_ctx self ctx)
          (zon4d_state snap) [] w
        = (None, ordered_ctx self ctx, zon4d_state sout, inverse_deltas ctx', w1)
    \<and> validate_state (zon4d self) (zon4d_state sout) w1 = (Inr True, w2)
    \<and> snapshot_in ctx' = snapshot_in ctx"
proof -
  let ?c = "ordered_ctx self ctx"
  have nb': "\<not> breached ?c" and so': "snapshot_out ?c = None"
    and si': "snapshot_in ?c = snapshot_in ctx"
    using nb so by (simp_all add: ordered_ctx_kept)
  obtain r6 c6 w6 where s6: "step6_apply_deltas self ?c w = (r6, c6, w6)"
    by (metis prod_cases3)
  show ?thesis
  proof (cases r6)
    case (Some e)
    with tb s6 have "ctx' = c6" by (simp add: tick_body_eq)
    with step6_kept(4) [OF s6] Some so' out show ?thesis by simp
  next
    case None
    obtain c10 w10 where s10: "step10_generate_domain_views self c6 w6 = (c10, w10)"
      by (cases "step10_generate_domain_views self c6 w6")
    obtain r11 c11 w11 where s11: "step11_schedule_performance self c10 w10 = (r11, c11, w11)"
      by (metis prod_cases3)
    from tb s6 None s10 s11 have c': "ctx' = c11"
      by (cases r11) (simp_all add: tick_body_eq)
    from s6 None have s6': "step6_apply_deltas self ?c w = (None, c6, w6)" by simp
    from step6_done [OF s6' nb'] obtain snap st' invs w1 where
      d: "snapshot_in ?c = Some snap"
        "apply_loop (zon4d self) (deltas_accepted ?c) ?c (zon4d_state snap) [] w
           = (None, ?c, st', invs, w1)"
        "validate_state (zon4d self) st' w1 = (Inr True, w6)"
        "snapshot_out c6 \<noteq> None" "zon4d_state (the (snapshot_out c6)) = st'"
        "inverse_deltas c6 = invs"
        "deltas_accepted c6 = deltas_accepted ?c" "snapshot_in c6 = snapshot_in ?c"
      by (elim exE conjE)
    note k10 = step10_kept [OF s10] and k11 = step11_kept [OF s11]
    from k10(1) k11(1) have q: "deltas_accepted c11 = deltas_accepted c6"
      "snapshot_in c11 = snapshot_in c6"
      by (simp_all add: same_queues_def)
    from k10(4,5) k11(4,5) have p: "snapshot_out c11 = snapshot_out c6"
      "inverse_deltas c11 = inverse_deltas c6" by simp_all
    from p c' out d(5) have e1: "zon4d_state sout = st'" by simp
    from p c' d(6) have e2: "inverse_deltas ctx' = invs" by simp
    from q c' d(7) have e3: "deltas_accepted ctx' = deltas_accepted ?c" by simp
    from q c' d(8) si' have e4: "snapshot_in ctx' = snapshot_in ctx" by simp
    from d(1) si' have e5: "snapshot_in ctx = Some snap" by simp
    from d(2,3) e1 e2 e3 have
      "apply_loop (zon4d self) (deltas_accepted ctx') ?c (zon4d_state snap) [] w
         = (None, ?c, zon4d_state sout, inverse_deltas ctx', w1)"
      "validate_state (zon4d self) (zon4d_state sout) w1 = (Inr True, w6)"
      by simp_all
    with e4 e5 show ?thesis by blast
  qed
qed

lemma rollback_call_body:
  assumes "rollback_call self pending dviews dtime now w = Some (s, c, v)"
  shows "\<exists>ok w1 r c'.
      store_timeline_hash_ok (anchor_store self) w = (Inr ok, w1)
    \<and> tick_body (ticked self now) (init_ctx self pending dviews dtime now ok) w1
        = (r, c', s, v)
    \<and> (c = c' \<or> (\<exists>m. c = mark_breach c' m))"
proof -
  from assms obtain ok w1 where
    h: "store_timeline_hash_ok (anchor_store self) w = (Inr ok, w1)"
    by (auto simp: rollback_call_def step1_init_eq split: prod.splits sum.splits)
  obtain r c' s' w' where
    tb: "tick_body (ticked self now) (init_ctx self pending dviews dtime now ok) w1
           = (r, c', s', w')"
    by (metis prod_cases4)
  from assms h tb have "s = s' \<and> v = w' \<and> (c = c' \<or> (\<exists>m. c = mark_breach c' m))"
    by (auto simp: rollback_call_def step1_init_eq
        split: option.splits exc.splits if_splits)
  with h tb show ?thesis by blast
qed

lemma run_tick_body:
  assumes rt: "run_tick self pending dviews dtime now w = (Inr ctx, self', w')"
  shows "\<exists>ok w1 r c' s' v.
      store_timeline_hash_ok (anchor_store self) w = (Inr ok, w1)
    \<and> tick_body (ticked self now) (init_ctx self pending dviews dtime now ok) w1
        = (r, c', s', v)
    \<and> snapshot_out ctx = snapshot_out c' \<and> inverse_deltas ctx = inverse_deltas c'
    \<and> deltas_accepted ctx = deltas_accepted c' \<and> snapshot_in ctx = snapshot_in c'"
proof (cases "rollback_call self pending dviews dtime now w")
  case None
  from rollback_call_None(1) [OF None rt] show ?thesis by blast
next
  case (Some a)
  obtain s c v where "a = (s, c, v)" by (metis prod_cases3)
  with Some have rc: "rollback_call self pending dviews dtime now w = Some (s, c, v)" by simp
  from run_tick_rolled_back [OF rc rt] obtain ok2 stp m where
    c: "ctx = alert (c\<lparr>timeline_hash_ok := ok2\<rparr>) ''INFO'' stp m" by blast
  from rollback_call_body [OF rc] obtain ok w1 r c' where
    h: "store_timeline_hash_ok (anchor_store self) w = (Inr ok, w1)"
    and tb: "tick_body (ticked self now) (init_ctx self pending dviews dtime now ok) w1
        = (r, c', s, v)"
    and cc: "c = c' \<or> (\<exists>m. c = mark_breach c' m)" by blast
  from cc c have "snapshot_out ctx = snapshot_out c' \<and> inverse_deltas ctx = inverse_deltas c'
    \<and> deltas_accepted ctx = deltas_accepted c' \<and> snapshot_in ctx = snapshot_in c'"
    by (auto simp: alert_def mark_breach_def)
  with h tb show ?thesis by blast
qed

text \<open>
  C6. Take a tick that \<^verbatim>\<open>run_tick\<close> returns and in which the mutation of step 6
  completed without breach: the returned context is not breached, or it has the output
  snapshot that step 6 assigns last (a later step may still have breached the tick). Then
  the context records as many inverse deltas as accepted deltas. There are the states
  \<open>sts\<close> through which the mutation went, from the state of the input snapshot, which
  is the current snapshot from before the tick, to the state of the output snapshot: for
  every \<open>i\<close>, the \<open>i\<close>-th inverse delta is what \<^verbatim>\<open>compute_inverse_delta\<close> returned
  for the \<open>i\<close>-th accepted delta against \<open>sts ! i\<close>, the state just before that delta
  was applied, and applying the delta to \<open>sts ! i\<close> gave \<open>sts ! Suc i\<close>. If the kernel's
  inverses are correct compensations, that is, if applying the \<open>i\<close>-th inverse delta to
  the state just after the \<open>i\<close>-th accepted delta gives back the state just before it,
  then having the kernel apply the inverse deltas in reverse order to the output state, as
  the fast path of \<^verbatim>\<open>_rollback\<close> does, gives back the input state, and so its value at
  every entity.
\<close>

theorem inverse_deltas_compensate:
  assumes rt: "run_tick self pending dviews dtime now w = (Inr ctx, self', w')"
    and fin: "\<not> breached ctx \<or> snapshot_out ctx \<noteq> None"
  shows "\<exists>sin sout sts ws.
      current_snapshot self = Some sin \<and> snapshot_in ctx = Some sin
    \<and> snapshot_out ctx = Some sout
    \<and> length (inverse_deltas ctx) = length (deltas_accepted ctx)
    \<and> length sts = Suc (length (deltas_accepted ctx))
    \<and> length ws = Suc (length (deltas_accepted ctx))
    \<and> sts ! 0 = zon4d_state sin
    \<and> sts ! length (deltas_accepted ctx) = zon4d_state sout
    \<and> (\<forall>i<length (deltas_accepted ctx). \<exists>u.
          compute_inverse_delta (zon4d self) (sts ! i) (deltas_accepted ctx ! i) (ws ! i)
            = (Inr (Some (inverse_deltas ctx ! i)), u)
          \<and> apply_delta_in_place (zon4d self) (sts ! i) (deltas_accepted ctx ! i) u
            = (Inr (sts ! Suc i), ws ! Suc i))
    \<and> ((\<forall>i<length (deltas_accepted ctx). \<forall>v. \<exists>v'.
           apply_delta_in_place (zon4d self) (sts ! Suc i) (inverse_deltas ctx ! i) v
             = (Inr (sts ! i), v'))
        \<longrightarrow> (\<forall>v. \<exists>v'.
               apply_all (zon4d self) (rev (inverse_deltas ctx)) (zon4d_state sout) v
                 = (Inr (zon4d_state sin), v')))"
proof -
  from fin run_tick_Inr(2) [OF rt] obtain sout where out: "snapshot_out ctx = Some sout"
    by auto
  from run_tick_body [OF rt] obtain ok w1 r c' s' v where
    h: "store_timeline_hash_ok (anchor_store self) w = (Inr ok, w1)"
    and tb: "tick_body (ticked self now) (init_ctx self pending dviews dtime now ok) w1
        = (r, c', s', v)"
    and eq: "snapshot_out ctx = snapshot_out c'" "inverse_deltas ctx = inverse_deltas c'"
      "deltas_accepted ctx = deltas_accepted c'" "snapshot_in ctx = snapshot_in c'"
    by blast
  let ?s1 = "ticked self now"
  let ?c1 = "init_ctx self pending dviews dtime now ok"
  have ok
  proof (rule ccontr)
    assume "\<not> ok"
    then have b: "breached ?c1" by (simp add: init_ctx_fields)
    from tick_body_breached [OF b, of ?s1 w1] tb
    have "c' = ?c1\<lparr>deltas_accepted := deltas_ordered ?c1\<rparr>" by simp
    with eq(1) out show False by (simp add: init_ctx_fields)
  qed
  then have nb: "\<not> breached ?c1" and so: "snapshot_out ?c1 = None"
    by (simp_all add: init_ctx_fields)
  from out eq(1) have out': "snapshot_out c' = Some sout" by simp
  note tm = tick_body_mutation [OF nb so tb out', unfolded ticked_fields]
  from tm obtain sin u1 u2 where
    si: "snapshot_in ?c1 = Some sin"
    and L: "apply_loop (zon4d self) (deltas_accepted c') (ordered_ctx ?s1 ?c1)
          (zon4d_state sin) [] w1
        = (None, ordered_ctx ?s1 ?c1, zon4d_state sout, inverse_deltas c', u1)"
    and si': "snapshot_in c' = snapshot_in ?c1"
    by (elim exE conjE)
  from si have cs: "current_snapshot self = Some sin" by (simp add: init_ctx_fields)
  from apply_loop_trace [OF L] obtain ivs sts ws where
    t0: "inverse_deltas c' = [] @ ivs"
    and t: "length ivs = length (deltas_accepted c')"
      "length sts = Suc (length (deltas_accepted c'))"
      "length ws = Suc (length (deltas_accepted c'))"
      "sts ! 0 = zon4d_state sin" "ws ! 0 = w1"
      "sts ! length (deltas_accepted c') = zon4d_state sout"
      "ws ! length (deltas_accepted c') = u1"
    and tr: "\<forall>i<length (deltas_accepted c'). \<exists>u.
          compute_inverse_delta (zon4d self) (sts ! i) (deltas_accepted c' ! i) (ws ! i)
            = (Inr (Some (ivs ! i)), u)
          \<and> apply_delta_in_place (zon4d self) (sts ! i) (deltas_accepted c' ! i) u
            = (Inr (sts ! Suc i), ws ! Suc i)"
    by (elim exE conjE)
  from t0 have iv: "inverse_deltas c' = ivs" by simp
  have comp: "\<forall>v. \<exists>v'.
               apply_all (zon4d self) (rev (inverse_deltas ctx)) (zon4d_state sout) v
                 = (Inr (zon4d_state sin), v')"
    if c: "\<forall>i<length (deltas_accepted ctx). \<forall>v. \<exists>v'.
           apply_delta_in_place (zon4d self) (sts ! Suc i) (inverse_deltas ctx ! i) v
             = (Inr (sts ! i), v')"
  proof
    fix v
    have len: "length sts = Suc (length ivs)" using t by simp
    from c have c': "\<forall>i<length ivs. \<forall>v. \<exists>v'.
           apply_delta_in_place (zon4d self) (sts ! Suc i) (ivs ! i) v = (Inr (sts ! i), v')"
      using t eq iv by simp
    from compensate_chain [OF len c', of v] t eq iv
    show "\<exists>v'. apply_all (zon4d self) (rev (inverse_deltas ctx)) (zon4d_state sout) v
                 = (Inr (zon4d_state sin), v')" by simp
  qed
  from cs si si' eq out t tr iv have
    "current_snapshot self = Some sin \<and> snapshot_in ctx = Some sin
    \<and> snapshot_out ctx = Some sout
    \<and> length (inverse_deltas ctx) = length (deltas_accepted ctx)
    \<and> length sts = Suc (length (deltas_accepted ctx))
    \<and> length ws = Suc (length (deltas_accepted ctx))
    \<and> sts ! 0 = zon4d_state sin
    \<and> sts ! length (deltas_accepted ctx) = zon4d_state sout
    \<and> (\<forall>i<length (deltas_accepted ctx). \<exists>u.
          compute_inverse_delta (zon4d self) (sts ! i) (deltas_accepted ctx ! i) (ws ! i)
            = (Inr (Some (inverse_deltas ctx ! i)), u)
          \<and> apply_delta_in_place (zon4d self) (sts ! i) (deltas_accepted ctx ! i) u
            = (Inr (sts ! Suc i), ws ! Suc i))"
    by simp
  with comp show ?thesis by blast
qed

text \<open>
  A tick of the test runtime that adds 5 and then 7 to the value 0 of the anchor. The
  inverses recorded are the additions of -5 and of -7, the output state holds 12, and the
  kernel, applying the inverses from the last to the first, gives back the value 0.
\<close>

theorem inverse_deltas_compensate_witness:
  "(case run_tick (test_runtime TestZON4DKernel 1024)
           [add_delta ''a'' 1 5, add_delta ''b'' 2 7] None None 100 True of
      (Inr ctx, s, w) \<Rightarrow>
        length (inverse_deltas ctx) = 2
        \<and> payload (inverse_deltas ctx ! 0) = Some (- 5)
        \<and> payload (inverse_deltas ctx ! 1) = Some (- 7)
        \<and> map_option zon4d_state (snapshot_out ctx) = Some [''value'' \<mapsto> 12]
        \<and> fst (apply_all TestZON4DKernel (rev (inverse_deltas ctx)) [''value'' \<mapsto> 12] True)
            = Inr [''value'' \<mapsto> 0]
    | (Inl e, s, w) \<Rightarrow> False)"
proof -
  let ?p = "[add_delta ''a'' 1 5, add_delta ''b'' 2 7]"
  let ?rt = "test_runtime TestZON4DKernel 1024"
  have "\<exists>ctx s w. run_tick ?rt ?p None None 100 True = (Inr ctx, s, w) \<and> \<not> breached ctx
          \<and> deltas_accepted ctx = ?p"
    by (auto simp: run_tick_defs test_defs)
  then obtain ctx s w where r: "run_tick ?rt ?p None None 100 True = (Inr ctx, s, w)"
    and nb: "\<not> breached ctx" and acc: "deltas_accepted ctx = ?p" by blast
  from nb have fin: "\<not> breached ctx \<or> snapshot_out ctx \<noteq> None" by simp
  from inverse_deltas_compensate [OF r fin] obtain sin sout sts ws where
    cs: "current_snapshot ?rt = Some sin"
    and out: "snapshot_out ctx = Some sout"
    and len: "length (inverse_deltas ctx) = length (deltas_accepted ctx)"
    and s0: "sts ! 0 = zon4d_state sin"
    and sn: "sts ! length (deltas_accepted ctx) = zon4d_state sout"
    and tr: "\<forall>i<length (deltas_accepted ctx). \<exists>u.
          compute_inverse_delta (zon4d ?rt) (sts ! i) (deltas_accepted ctx ! i) (ws ! i)
            = (Inr (Some (inverse_deltas ctx ! i)), u)
          \<and> apply_delta_in_place (zon4d ?rt) (sts ! i) (deltas_accepted ctx ! i) u
            = (Inr (sts ! Suc i), ws ! Suc i)"
    and comp: "(\<forall>i<length (deltas_accepted ctx). \<forall>v. \<exists>v'.
           apply_delta_in_place (zon4d ?rt) (sts ! Suc i) (inverse_deltas ctx ! i) v
             = (Inr (sts ! i), v'))
        \<longrightarrow> (\<forall>v. \<exists>v'.
               apply_all (zon4d ?rt) (rev (inverse_deltas ctx)) (zon4d_state sout) v
                 = (Inr (zon4d_state sin), v'))"
    by (elim exE conjE)
  have k: "zon4d ?rt = TestZON4DKernel" by (simp add: test_runtime_def)
  from cs s0 have st0: "sts ! 0 = [''value'' \<mapsto> 0]"
    by (auto simp: test_runtime_def immutable_anchor_def)
  from cs have sin: "zon4d_state sin = [''value'' \<mapsto> 0]"
    by (auto simp: test_runtime_def immutable_anchor_def)
  note tr' = tr [unfolded k, rule_format]
  from tr' [of 0] acc st0
  have i0: "payload (inverse_deltas ctx ! 0) = Some (- 5)"
    and st1: "sts ! Suc 0 = [''value'' \<mapsto> 5]"
    by (auto simp: TestZON4DKernel_def add_delta_def
        eq_commute [of _ "inverse_deltas ctx ! 0"] eq_commute [of _ "sts ! Suc 0"])
  from tr' [of "Suc 0"] acc st1
  have i1: "payload (inverse_deltas ctx ! Suc 0) = Some (- 7)"
    and st2: "sts ! Suc (Suc 0) = [''value'' \<mapsto> 12]"
    by (auto simp: TestZON4DKernel_def add_delta_def
        eq_commute [of _ "inverse_deltas ctx ! Suc 0"] eq_commute [of _ "sts ! Suc (Suc 0)"])
  from sn acc st2 have so: "zon4d_state sout = [''value'' \<mapsto> 12]" by simp
  have "\<forall>i<length (deltas_accepted ctx). \<forall>v. \<exists>v'.
           apply_delta_in_place TestZON4DKernel (sts ! Suc i) (inverse_deltas ctx ! i) v
             = (Inr (sts ! i), v')"
  proof (intro allI impI)
    fix i v assume "i < length (deltas_accepted ctx)"
    with acc have "i = 0 \<or> i = Suc 0" by auto
    then show "\<exists>v'. apply_delta_in_place TestZON4DKernel (sts ! Suc i)
                  (inverse_deltas ctx ! i) v
             = (Inr (sts ! i), v')"
      using st0 st1 st2 i0 i1 by (auto simp: TestZON4DKernel_def)
  qed
  with comp [unfolded k] so sin have
    "\<exists>v'. apply_all TestZON4DKernel (rev (inverse_deltas ctx)) [''value'' \<mapsto> 12] True
            = (Inr [''value'' \<mapsto> 0], v')"
    by simp
  then have "fst (apply_all TestZON4DKernel (rev (inverse_deltas ctx)) [''value'' \<mapsto> 12] True)
            = Inr [''value'' \<mapsto> 0]" by auto
  with r len acc i0 i1 out so show ?thesis by simp
qed

end
